theory Spec2Isabelle
  imports Complex_Main "HOL-Library.Char_ord" "HOL-Library.List_Lexorder" "HOL-Library.AList"
begin

section \<open>The dashboard server of \<^verbatim>\<open>src/monitor/dashboard_server.py\<close>\<close>

text \<open>
  The server scans a results directory for TensorBoard event files
  (\<^verbatim>\<open>discover_runs\<close>), keeps one parsed accumulator per file (\<^verbatim>\<open>EventCache\<close>) and
  answers two JSON requests (\<^verbatim>\<open>handle_runs\<close>, \<^verbatim>\<open>handle_metrics\<close>).

  Conventions of the embedding:
  \<^item> a \<^verbatim>\<open>Path\<close> is the list of its components; a directory listing is the list of
    (name, node) pairs in the order the operating system returns them;
  \<^item> a modification time (\<^verbatim>\<open>st_mtime\<close>, a float that is never NaN) is a \<open>real\<close>: the
    code only compares modification times, it never computes with them;
  \<^item> an exception is a value of \<open>error\<close>; a function that can raise returns
    \<open>error + 'a\<close>;
  \<^item> symbolic links, permission errors and files that change during one scan are not
    modelled.
\<close>

subsection \<open>Exceptions\<close>

datatype error =
    NotADirectoryError
  | IndexError
  | KeyError
  | RuntimeError string

subsection \<open>The file system under the results directory\<close>

type_synonym path = "string list"

datatype node =
    File real
  | Dir real "(string \<times> node) list"

text \<open>\<^verbatim>\<open>p.stat().st_mtime\<close>\<close>

fun mtime :: "node \<Rightarrow> real" where
  "mtime (File t) = t"
| "mtime (Dir t es) = t"

text \<open>\<^verbatim>\<open>p.is_dir()\<close>\<close>

fun is_dir :: "node \<Rightarrow> bool" where
  "is_dir (File t) = False"
| "is_dir (Dir t es) = True"

text \<open>\<^verbatim>\<open>p.iterdir()\<close>, only called on directories by the code below.\<close>

fun iterdir :: "node \<Rightarrow> (string \<times> node) list" where
  "iterdir (File t) = []"
| "iterdir (Dir t es) = es"

text \<open>
  The pattern \<^verbatim>\<open>events.out.tfevents.*\<close> matches a name exactly when the name starts
  with the twenty characters before the star (the star matches any rest, also the
  empty one; matching is case sensitive on POSIX).
\<close>

definition matches_event_pattern :: "string \<Rightarrow> bool" where
  "matches_event_pattern name = (take 20 name = ''events.out.tfevents.'')"

text \<open>
  \<^verbatim>\<open>list(behavior_dir.glob("events.out.tfevents.*"))\<close>: the entries of the directory
  whose name matches, files of any kind, in listing order.
\<close>

definition glob_events :: "node \<Rightarrow> (string \<times> node) list" where
  "glob_events d = filter (\<lambda>e. matches_event_pattern (fst e)) (iterdir d)"

text \<open>
  \<^verbatim>\<open>max(event_files, key=lambda p: p.stat().st_mtime)\<close> on a non-empty list, first
  element and rest: Python's \<^verbatim>\<open>max\<close> keeps the first of several maximal elements,
  replacing the current best only by a strictly greater one.
\<close>

fun max_mtime :: "(string \<times> node) \<Rightarrow> (string \<times> node) list \<Rightarrow> (string \<times> node)" where
  "max_mtime best [] = best"
| "max_mtime best (p # ps) =
     max_mtime (if mtime (snd best) < mtime (snd p) then p else best) ps"

subsection \<open>\<^verbatim>\<open>discover_runs\<close>\<close>

record BehaviorEventFile =
  run_id :: string
  behavior :: string
  event_path :: path
  updated_at :: real

text \<open>The inner loop \<^verbatim>\<open>for behavior_dir in run_dir.iterdir()\<close> of one run directory.\<close>

fun scan_behaviors :: "path \<Rightarrow> string \<Rightarrow> (string \<times> node) list \<Rightarrow> BehaviorEventFile list" where
  "scan_behaviors rd run [] = []"
| "scan_behaviors rd run (b # bs) =
     (if \<not> is_dir (snd b) then scan_behaviors rd run bs
      else
        (case glob_events (snd b) of
           [] \<Rightarrow> scan_behaviors rd run bs
         | f # fs \<Rightarrow>
             (let latest = max_mtime f fs
              in \<lparr>run_id = run, behavior = fst b,
                   event_path = rd @ [run, fst b, fst latest],
                   updated_at = mtime (snd latest)\<rparr>
                 # scan_behaviors rd run bs)))"

text \<open>The outer loop \<^verbatim>\<open>for run_dir in sorted(results_dir.iterdir())\<close>, on the sorted listing.\<close>

fun scan_runs :: "path \<Rightarrow> (string \<times> node) list \<Rightarrow> BehaviorEventFile list" where
  "scan_runs rd [] = []"
| "scan_runs rd (r # rs) =
     (if \<not> is_dir (snd r) then scan_runs rd rs
      else scan_behaviors rd (fst r) (iterdir (snd r)) @ scan_runs rd rs)"

text \<open>
  \<^verbatim>\<open>discover_runs(results_dir)\<close>. The first argument is the path \<^verbatim>\<open>results_dir\<close>, the
  second what the file system holds there (\<open>None\<close>: nothing). Paths in one directory
  compare by their last component, as strings; \<^verbatim>\<open>sorted\<close> is stable, as \<open>sort_key\<close> is.
  Where \<^verbatim>\<open>results_dir\<close> exists and is not a directory, \<^verbatim>\<open>iterdir\<close> raises.
\<close>

definition discover_runs :: "path \<Rightarrow> node option \<Rightarrow> error + BehaviorEventFile list" where
  "discover_runs rd tree =
     (case tree of
        None \<Rightarrow> Inr []
      | Some (File t) \<Rightarrow> Inl NotADirectoryError
      | Some (Dir t es) \<Rightarrow> Inr (scan_runs rd (sort_key fst es)))"

subsection \<open>The event-file parser\<close>

text \<open>
  The parser is TensorBoard's \<^verbatim>\<open>event_accumulator\<close>, a library outside the repository.
  The server uses four of its operations: the constructor, \<^verbatim>\<open>Reload\<close>, \<^verbatim>\<open>Tags\<close> and
  \<^verbatim>\<open>Scalars\<close>. A scalar's value is a number of the file (an integer or a float);
  floats are modelled as reals, rounding is not modelled.
\<close>

datatype scalar_value = IntValue int | FloatValue real

record ScalarEvent =
  ev_wall_time :: real
  ev_step :: int
  ev_value :: scalar_value

text \<open>An event file, as the parser reads it: the (tag, sample) records in file order.\<close>

type_synonym event_file = "(string \<times> ScalarEvent) list"

text \<open>
  Modelled from the spec: the parsed handle of the parser library (section 3 and 4.2:
  an in-memory representation of one log file's scalar series, keyed by the file's
  path; each series is an ordered sequence of samples; a reload incorporates the
  samples appended to the file since the last reload and discards nothing). The
  handle remembers how many records of the file it has read; the series are stored in
  the order of their first sample, with size guidance 0 for scalars (keep them all).
\<close>

record EventAccumulator =
  acc_path :: path
  consumed :: nat
  scalars :: "(string \<times> ScalarEvent list) list"

text \<open>Modelled from the spec: \<^verbatim>\<open>EventAccumulator(str(event_path), size_guidance=...)\<close>, which reads nothing yet.\<close>

definition new_EventAccumulator :: "path \<Rightarrow> EventAccumulator" where
  "new_EventAccumulator p = \<lparr>acc_path = p, consumed = 0, scalars = []\<rparr>"

text \<open>Modelled from the spec: one record read by a reload goes to the end of its series.\<close>

definition add_scalar ::
  "string \<times> ScalarEvent \<Rightarrow> (string \<times> ScalarEvent list) list \<Rightarrow> (string \<times> ScalarEvent list) list" where
  "add_scalar e series = AList.map_default (fst e) [snd e] (\<lambda>xs. xs @ [snd e]) series"

text \<open>
  Modelled from the spec: \<^verbatim>\<open>acc.Reload()\<close>, given what the file system holds at each
  path: the records behind the ones already read are read, in file order.
\<close>

definition Reload :: "(path \<Rightarrow> event_file) \<Rightarrow> EventAccumulator \<Rightarrow> EventAccumulator" where
  "Reload disk acc =
     (let new = drop (consumed acc) (disk (acc_path acc))
      in acc\<lparr>consumed := consumed acc + length new,
             scalars := fold add_scalar new (scalars acc)\<rparr>)"

text \<open>Modelled from the spec: \<^verbatim>\<open>acc.Tags().get("scalars", [])\<close>, the names of the series.\<close>

definition scalar_tags :: "EventAccumulator \<Rightarrow> string list" where
  "scalar_tags acc = map fst (scalars acc)"

text \<open>Modelled from the spec: \<^verbatim>\<open>acc.Scalars(tag)\<close>; the library raises \<^verbatim>\<open>KeyError\<close> for a tag it has not seen.\<close>

definition Scalars :: "EventAccumulator \<Rightarrow> string \<Rightarrow> error + ScalarEvent list" where
  "Scalars acc tag = (case map_of (scalars acc) tag of None \<Rightarrow> Inl KeyError | Some evs \<Rightarrow> Inr evs)"

text \<open>\<^verbatim>\<open>float(ev.value)\<close>\<close>

fun py_float :: "scalar_value \<Rightarrow> real" where
  "py_float (IntValue n) = of_int n"
| "py_float (FloatValue x) = x"

subsection \<open>The process and its environment\<close>

text \<open>
  What is fixed when the process starts: whether the import of the parser library
  succeeded (\<^verbatim>\<open>event_accumulator is not None\<close>), and \<^verbatim>\<open>results_dir\<close>.
\<close>

record config =
  tensorboard :: bool
  results_dir :: path

text \<open>
  What a request finds outside the process: the file system at \<^verbatim>\<open>results_dir\<close>, and
  the records the parser reads at each path.
\<close>

record world =
  tree :: "node option"
  files :: "path \<Rightarrow> event_file"

text \<open>
  The state that outlives a request. Accumulators are objects that \<^verbatim>\<open>Reload\<close> mutates
  in place, so they live in a store: \<open>heap\<close> lists every accumulator ever constructed,
  and a reference is an index into it. \<open>cache\<close> is the dictionary
  \<^verbatim>\<open>EventCache._cache\<close>, from paths to references, in insertion order.
\<close>

record server_state =
  cache :: "(path \<times> nat) list"
  heap :: "EventAccumulator list"

text \<open>\<^verbatim>\<open>EventCache()\<close>\<close>

definition init_state :: server_state where
  "init_state = \<lparr>cache = [], heap = []\<rparr>"

subsection \<open>\<^verbatim>\<open>EventCache.get\<close>\<close>

definition missing_dependency :: string where
  "missing_dependency =
     ''tensorboard is not installed. Install it with `pip install tensorboard`.''"

text \<open>
  \<^verbatim>\<open>EventCache.get(event_path)\<close>. The body behind the dependency check runs under the
  cache's lock, so calls of \<^verbatim>\<open>get\<close> by concurrent requests take effect one after the
  other: one call is one step of the state. The result is the reference returned (or
  the exception raised) and the state left behind.
\<close>

definition get :: "config \<Rightarrow> world \<Rightarrow> path \<Rightarrow> server_state \<Rightarrow> (error + nat) \<times> server_state" where
  "get cfg w p s =
     (if \<not> tensorboard cfg then (Inl (RuntimeError missing_dependency), s)
      else
        (case map_of (cache s) p of
           None \<Rightarrow>
             (let acc = Reload (files w) (new_EventAccumulator p);
                  r = length (heap s)
              in (Inr r, s\<lparr>heap := heap s @ [acc], cache := AList.update p r (cache s)\<rparr>))
         | Some r \<Rightarrow>
             (Inr r, s\<lparr>heap := (heap s)[r := Reload (files w) (heap s ! r)]\<rparr>)))"

text \<open>A sequence of calls, each with the world it finds: the results, and the final state.\<close>

fun gets :: "config \<Rightarrow> (world \<times> path) list \<Rightarrow> server_state \<Rightarrow> (error + nat) list \<times> server_state" where
  "gets cfg [] s = ([], s)"
| "gets cfg (c # cs) s =
     (case get cfg (fst c) (snd c) s of
        (r, s') \<Rightarrow> (case gets cfg cs s' of (rs, s'') \<Rightarrow> (r # rs, s'')))"

subsection \<open>Responses\<close>

record json_sample =
  js_step :: int
  js_value :: real
  js_wall_time :: real

record metrics_payload =
  mp_run :: string
  mp_behavior :: string
  mp_event_path :: path
  mp_updated_at :: real
  mp_tags :: "string list"
  mp_data :: "(string \<times> json_sample list) list"

record behavior_summary =
  bs_name :: string
  bs_event_path :: path
  bs_updated_at :: real

record run_summary =
  rs_id :: string
  rs_behaviors :: "behavior_summary list"
  rs_latest_update :: real

datatype payload =
    ErrorPayload string
  | MetricsPayload metrics_payload
  | RunsPayload "run_summary list"

record response =
  status :: nat
  body :: payload

text \<open>\<^verbatim>\<open>_write_json(payload, status)\<close>: the status code and the JSON document sent.\<close>

definition write_json :: "payload \<Rightarrow> nat \<Rightarrow> response" where
  "write_json p st = \<lparr>status = st, body = p\<rparr>"

subsection \<open>\<^verbatim>\<open>handle_runs\<close>\<close>

text \<open>
  The loop \<^verbatim>\<open>for r in runs\<close> over the dictionary \<^verbatim>\<open>grouped\<close> (an association list in
  insertion order).
\<close>

fun group_runs :: "BehaviorEventFile list \<Rightarrow> (string \<times> run_summary) list \<Rightarrow> (string \<times> run_summary) list" where
  "group_runs [] grouped = grouped"
| "group_runs (r # rs) grouped =
     (let g1 = (if map_of grouped (run_id r) = None
                then AList.update (run_id r)
                       \<lparr>rs_id = run_id r, rs_behaviors = [], rs_latest_update = updated_at r\<rparr> grouped
                else grouped);
          g2 = AList.map_entry (run_id r)
                 (\<lambda>g. g\<lparr>rs_behaviors := rs_behaviors g @
                    [\<lparr>bs_name = behavior r, bs_event_path = event_path r,
                      bs_updated_at = updated_at r\<rparr>]\<rparr>) g1;
          g3 = AList.map_entry (run_id r)
                 (\<lambda>g. g\<lparr>rs_latest_update := max (rs_latest_update g) (updated_at r)\<rparr>) g2
      in group_runs rs g3)"

definition handle_runs :: "config \<Rightarrow> world \<Rightarrow> error + response" where
  "handle_runs cfg w =
     (case discover_runs (results_dir cfg) (tree w) of
        Inl e \<Rightarrow> Inl e
      | Inr runs \<Rightarrow>
          Inr (write_json
                 (RunsPayload (sort_key rs_latest_update (map snd (group_runs runs []))))
                 200))"

subsection \<open>\<^verbatim>\<open>handle_metrics\<close>\<close>

text \<open>
  The query string, split at \<^verbatim>\<open>&\<close> and \<^verbatim>\<open>=\<close> and decoded, is a list of (name, value)
  fields. \<^verbatim>\<open>parse_qs\<close> drops the fields with a blank value and collects the values
  of each name in order.
\<close>

fun parse_qs_into :: "(string \<rightharpoonup> string list) \<Rightarrow> (string \<times> string) list \<Rightarrow> (string \<rightharpoonup> string list)" where
  "parse_qs_into m [] = m"
| "parse_qs_into m (f # fs) =
     (if snd f = [] then parse_qs_into m fs
      else parse_qs_into
             (m(fst f \<mapsto> (case m (fst f) of None \<Rightarrow> [snd f] | Some vs \<Rightarrow> vs @ [snd f]))) fs)"

definition parse_qs :: "(string \<times> string) list \<Rightarrow> (string \<rightharpoonup> string list)" where
  "parse_qs query = parse_qs_into Map.empty query"

text \<open>
  \<^verbatim>\<open>params.get(name, [default])[0]\<close>: \<open>None\<close> stands for the default (\<^verbatim>\<open>None\<close> for
  \<^verbatim>\<open>run\<close> and \<^verbatim>\<open>behavior\<close>, the integer \<^verbatim>\<open>200\<close> for \<^verbatim>\<open>limit\<close>).
\<close>

definition param0 :: "(string \<rightharpoonup> string list) \<Rightarrow> string \<Rightarrow> error + string option" where
  "param0 params name =
     (case params name of
        None \<Rightarrow> Inr None
      | Some [] \<Rightarrow> Inl IndexError
      | Some (v # vs) \<Rightarrow> Inr (Some v))"

text \<open>
  Lines 156 to 159. Python's \<^verbatim>\<open>int\<close> on a string is the parameter \<open>to_int\<close> (\<open>None\<close>:
  it raises \<^verbatim>\<open>ValueError\<close>); on the default, the integer 200, \<^verbatim>\<open>int\<close> is the identity.
\<close>

definition effective_limit :: "(string \<Rightarrow> int option) \<Rightarrow> string option \<Rightarrow> int" where
  "effective_limit to_int limit_raw =
     (case limit_raw of
        None \<Rightarrow> max 1 (min 200 2000)
      | Some raw \<Rightarrow>
          (case to_int raw of
             Some n \<Rightarrow> max 1 (min n 2000)
           | None \<Rightarrow> 200))"

text \<open>\<^verbatim>\<open>_find_event_file(run_id, behavior)\<close>\<close>

definition find_event_file :: "config \<Rightarrow> world \<Rightarrow> string \<Rightarrow> string \<Rightarrow> error + BehaviorEventFile option" where
  "find_event_file cfg w r b =
     (case discover_runs (results_dir cfg) (tree w) of
        Inl e \<Rightarrow> Inl e
      | Inr runs \<Rightarrow> Inr (find (\<lambda>run. run_id run = r \<and> behavior run = b) runs))"

text \<open>
  Python's slice \<^verbatim>\<open>xs[start:]\<close>: a negative start counts from the end, and a start
  outside the list is clipped to it.
\<close>

definition slice_from :: "int \<Rightarrow> 'a list \<Rightarrow> 'a list" where
  "slice_from start xs =
     (let n = int (length xs);
          i = (if start < 0 then max (n + start) 0 else min start n)
      in drop (nat i) xs)"

definition sample_json :: "ScalarEvent \<Rightarrow> json_sample" where
  "sample_json ev =
     \<lparr>js_step = ev_step ev, js_value = py_float (ev_value ev), js_wall_time = ev_wall_time ev\<rparr>"

text \<open>The loop \<^verbatim>\<open>for tag in tags\<close> over the dictionary \<^verbatim>\<open>data\<close>.\<close>

fun collect :: "EventAccumulator \<Rightarrow> int \<Rightarrow> string list \<Rightarrow> (string \<times> json_sample list) list
    \<Rightarrow> error + (string \<times> json_sample list) list" where
  "collect acc limit [] data = Inr data"
| "collect acc limit (tag # tags) data =
     (case Scalars acc tag of
        Inl e \<Rightarrow> Inl e
      | Inr evs \<Rightarrow>
          collect acc limit tags
            (AList.update tag (map sample_json (slice_from (- limit) evs)) data))"

text \<open>
  The \<^verbatim>\<open>try\<close> block of \<^verbatim>\<open>handle_metrics\<close> with its handler: a \<^verbatim>\<open>RuntimeError\<close> is
  answered 500 with its message, any other exception leaves the handler.
\<close>

definition metrics_of :: "config \<Rightarrow> world \<Rightarrow> string \<Rightarrow> string \<Rightarrow> int \<Rightarrow> BehaviorEventFile
    \<Rightarrow> server_state \<Rightarrow> (error + response) \<times> server_state" where
  "metrics_of cfg w r b limit event_file s =
     (case get cfg w (event_path event_file) s of
        (Inl (RuntimeError msg), s') \<Rightarrow> (Inr (write_json (ErrorPayload msg) 500), s')
      | (Inl e, s') \<Rightarrow> (Inl e, s')
      | (Inr ref, s') \<Rightarrow>
          (let acc = heap s' ! ref;
               tags = scalar_tags acc
           in (case collect acc limit tags [] of
                 Inl (RuntimeError msg) \<Rightarrow> (Inr (write_json (ErrorPayload msg) 500), s')
               | Inl e \<Rightarrow> (Inl e, s')
               | Inr data \<Rightarrow>
                   (Inr (write_json
                      (MetricsPayload
                         \<lparr>mp_run = r, mp_behavior = b,
                          mp_event_path = event_path event_file,
                          mp_updated_at = updated_at event_file,
                          mp_tags = tags, mp_data = data\<rparr>) 200), s'))))"

definition not_found_message :: "string \<Rightarrow> string \<Rightarrow> string" where
  "not_found_message r b =
     ''No event file found for run '' @ [CHR 0x27] @ r @ [CHR 0x27] @
     '' and behavior '' @ [CHR 0x27] @ b @ [CHR 0x27]"

text \<open>
  \<^verbatim>\<open>handle_metrics(query)\<close>: the response written (or the exception that leaves the
  handler) and the state left behind. \<^verbatim>\<open>not run_id or not behavior\<close> holds when one of
  the two is \<^verbatim>\<open>None\<close> or the empty string.
\<close>

definition handle_metrics :: "(string \<Rightarrow> int option) \<Rightarrow> config \<Rightarrow> world \<Rightarrow> (string \<times> string) list
    \<Rightarrow> server_state \<Rightarrow> (error + response) \<times> server_state" where
  "handle_metrics to_int cfg w query s =
     (let params = parse_qs query;
          bad_request = (Inr (write_json (ErrorPayload ''run and behavior are required'') 400), s)
      in (case param0 params ''run'' of
            Inl e \<Rightarrow> (Inl e, s)
          | Inr run \<Rightarrow>
         (case param0 params ''behavior'' of
            Inl e \<Rightarrow> (Inl e, s)
          | Inr beh \<Rightarrow>
         (case param0 params ''limit'' of
            Inl e \<Rightarrow> (Inl e, s)
          | Inr limit_raw \<Rightarrow>
         (let limit = effective_limit to_int limit_raw
          in (case run of
                None \<Rightarrow> bad_request
              | Some r \<Rightarrow>
             (case beh of
                None \<Rightarrow> bad_request
              | Some b \<Rightarrow>
                  if r = [] \<or> b = [] then bad_request
                  else
                    (case find_event_file cfg w r b of
                       Inl e \<Rightarrow> (Inl e, s)
                     | Inr None \<Rightarrow>
                         (Inr (write_json (ErrorPayload (not_found_message r b)) 404), s)
                     | Inr (Some event_file) \<Rightarrow>
                         metrics_of cfg w r b limit event_file s))))))))"

subsection \<open>Notions used to state the properties\<close>

text \<open>
  The value a request gives a field: the first value of that name in the query that is
  not blank, if there is one.
\<close>

definition first_value :: "(string \<times> string) list \<Rightarrow> string \<Rightarrow> string option" where
  "first_value query name =
     (case filter (\<lambda>f. fst f = name \<and> snd f \<noteq> []) query of
        [] \<Rightarrow> None
      | f # fs \<Rightarrow> Some (snd f))"

text \<open>
  The event files of a behavior directory, as the docstring of \<^verbatim>\<open>discover_runs\<close> and the
  specification mean them: the entries that match the pattern and are not directories.
\<close>

definition event_files :: "node \<Rightarrow> (string \<times> node) list" where
  "event_files d = filter (\<lambda>e. \<not> is_dir (snd e)) (glob_events d)"

text \<open>
  The states the process can be in: the keys of the cache are distinct, its references
  are the accumulators constructed so far, in order of construction, and the
  accumulator stored for a path was constructed for that path.
\<close>

definition wf_state :: "server_state \<Rightarrow> bool" where
  "wf_state s =
     (distinct (map fst (cache s)) \<and>
      map snd (cache s) = [0..<length (heap s)] \<and>
      list_all (\<lambda>e. acc_path (heap s ! snd e) = fst e) (cache s))"

subsection \<open>The run summary of the specification\<close>

text \<open>
  The specification's words for the runs listing (section 4.4): the summary of a run
  carries the run id, the list of its behaviors, each with its file path and
  modification time, and the maximum of its behaviors' modification times.
\<close>

definition summary_of :: "BehaviorEventFile list \<Rightarrow> string \<Rightarrow> run_summary" where
  "summary_of runs k =
     \<lparr>rs_id = k,
      rs_behaviors =
        map (\<lambda>r. \<lparr>bs_name = behavior r, bs_event_path = event_path r,
                   bs_updated_at = updated_at r\<rparr>)
          (filter (\<lambda>r. run_id r = k) runs),
      rs_latest_update = Max (updated_at ` {r \<in> set runs. run_id r = k})\<rparr>"

subsection \<open>Example inputs\<close>

text \<open>
  A results directory with two runs, listed out of name order, a stray file beside
  them, a behavior directory without event files and one with three.
\<close>

definition tree0 :: node where
  "tree0 = Dir 0
     [(''run2'', Dir 5 [(''AgentB'', Dir 1 [(''events.out.tfevents.1'', File 10)])]),
      (''stray.txt'', File 1),
      (''run1'', Dir 3
         [(''AgentA'', Dir 2
             [(''events.out.tfevents.1'', File 10), (''notes.txt'', File 99),
              (''events.out.tfevents.2'', File 20), (''events.out.tfevents.3'', File 20)]),
          (''Empty'', Dir 1 [(''readme'', File 1)])])]"

definition path0 :: path where
  "path0 = [''results'', ''run1'', ''AgentA'', ''events.out.tfevents.2'']"

definition path1 :: path where
  "path1 = [''results'', ''run2'', ''AgentB'', ''events.out.tfevents.1'']"

text \<open>An event file with two series, and the same file after two more records.\<close>

definition log0 :: event_file where
  "log0 =
     [(''reward'', \<lparr>ev_wall_time = 100, ev_step = 1, ev_value = FloatValue 0.5\<rparr>),
      (''loss'', \<lparr>ev_wall_time = 100, ev_step = 1, ev_value = IntValue 3\<rparr>),
      (''reward'', \<lparr>ev_wall_time = 101, ev_step = 2, ev_value = FloatValue 1.5\<rparr>),
      (''reward'', \<lparr>ev_wall_time = 102, ev_step = 3, ev_value = IntValue 2\<rparr>)]"

definition log1 :: event_file where
  "log1 = log0 @
     [(''reward'', \<lparr>ev_wall_time = 103, ev_step = 4, ev_value = FloatValue 2.5\<rparr>),
      (''loss'', \<lparr>ev_wall_time = 103, ev_step = 2, ev_value = IntValue 1\<rparr>)]"

definition cfg0 :: config where
  "cfg0 = \<lparr>tensorboard = True, results_dir = [''results'']\<rparr>"

text \<open>The same process without the parser library.\<close>

definition cfg1 :: config where
  "cfg1 = \<lparr>tensorboard = False, results_dir = [''results'']\<rparr>"

definition w0 :: world where
  "w0 = \<lparr>tree = Some tree0, files = (\<lambda>p. if p = path0 then log0 else [])\<rparr>"

definition w1 :: world where
  "w1 = \<lparr>tree = Some tree0, files = (\<lambda>p. if p = path0 then log1 else [])\<rparr>"

text \<open>A stand-in for Python's \<^verbatim>\<open>int\<close> on the strings of the examples.\<close>

definition int0 :: "string \<Rightarrow> int option" where
  "int0 raw =
     (if raw = ''2'' then Some 2 else if raw = ''50'' then Some 50
      else if raw = ''5000'' then Some 5000 else if raw = ''-3'' then Some (- 3)
      else if raw = ''0'' then Some 0 else None)"

text \<open>What discovery finds in the example tree.\<close>

definition runs0 :: "BehaviorEventFile list" where
  "runs0 =
     [\<lparr>run_id = ''run1'', behavior = ''AgentA'', event_path = path0, updated_at = 20\<rparr>,
      \<lparr>run_id = ''run2'', behavior = ''AgentB'', event_path = path1, updated_at = 10\<rparr>]"

text \<open>A request for the last two samples of each series of \<^verbatim>\<open>run1\<close>, \<^verbatim>\<open>AgentA\<close>.\<close>

definition q0 :: "(string \<times> string) list" where
  "q0 = [(''run'', ''run1''), (''behavior'', ''AgentA''), (''limit'', ''2'')]"

text \<open>The accumulator of the example file after a reload, before and after the file grew.\<close>

definition acc0 :: EventAccumulator where
  "acc0 = \<lparr>acc_path = path0, consumed = 4,
     scalars =
       [(''reward'',
         [\<lparr>ev_wall_time = 100, ev_step = 1, ev_value = FloatValue 0.5\<rparr>,
          \<lparr>ev_wall_time = 101, ev_step = 2, ev_value = FloatValue 1.5\<rparr>,
          \<lparr>ev_wall_time = 102, ev_step = 3, ev_value = IntValue 2\<rparr>]),
        (''loss'', [\<lparr>ev_wall_time = 100, ev_step = 1, ev_value = IntValue 3\<rparr>])]\<rparr>"

definition acc1 :: EventAccumulator where
  "acc1 = \<lparr>acc_path = path0, consumed = 6,
     scalars =
       [(''reward'',
         [\<lparr>ev_wall_time = 100, ev_step = 1, ev_value = FloatValue 0.5\<rparr>,
          \<lparr>ev_wall_time = 101, ev_step = 2, ev_value = FloatValue 1.5\<rparr>,
          \<lparr>ev_wall_time = 102, ev_step = 3, ev_value = IntValue 2\<rparr>,
          \<lparr>ev_wall_time = 103, ev_step = 4, ev_value = FloatValue 2.5\<rparr>]),
        (''loss'',
         [\<lparr>ev_wall_time = 100, ev_step = 1, ev_value = IntValue 3\<rparr>,
          \<lparr>ev_wall_time = 103, ev_step = 2, ev_value = IntValue 1\<rparr>])]\<rparr>"

definition st1 :: server_state where
  "st1 = \<lparr>cache = [(path0, 0)], heap = [acc0]\<rparr>"

definition st2 :: server_state where
  "st2 = \<lparr>cache = [(path0, 0)], heap = [acc1]\<rparr>"

text \<open>
  The scenario of the specification: one series with the steps 1 to 300, and the
  accumulator that has read it.
\<close>

definition reward_event :: "int \<Rightarrow> ScalarEvent" where
  "reward_event i = \<lparr>ev_wall_time = of_int i, ev_step = i, ev_value = FloatValue (of_int i)\<rparr>"

definition w300 :: world where
  "w300 = \<lparr>tree = Some tree0,
     files = (\<lambda>p. if p = path0 then map (\<lambda>i. (''reward'', reward_event i)) [1..300] else [])\<rparr>"

definition acc300 :: EventAccumulator where
  "acc300 = \<lparr>acc_path = path0, consumed = 300, scalars = [(''reward'', map reward_event [1..300])]\<rparr>"

text \<open>
  A results directory in which a directory has the name of an event file: alone in
  the behavior directory \<^verbatim>\<open>AgentA\<close>, and beside an older event file in \<^verbatim>\<open>AgentB\<close>.
\<close>

definition only_dir :: node where
  "only_dir = Dir 2 [(''events.out.tfevents.zdir'', Dir 30 [])]"

definition dir_beside_file :: node where
  "dir_beside_file =
     Dir 2 [(''events.out.tfevents.1'', File 10), (''events.out.tfevents.zdir'', Dir 30 [])]"

definition tree_dirs :: node where
  "tree_dirs = Dir 0 [(''run1'', Dir 1 [(''AgentA'', only_dir), (''AgentB'', dir_beside_file)])]"

section \<open>Properties\<close>

subsection \<open>Run discovery\<close>

lemma max_mtime_mem: "max_mtime f fs \<in> set (f # fs)"
  by (induction fs arbitrary: f) auto

lemma max_mtime_mono: "mtime (snd f) \<le> mtime (snd (max_mtime f fs))"
proof (induction fs arbitrary: f)
  case Nil
  then show ?case by simp
next
  case (Cons p ps)
  show ?case
  proof (cases "mtime (snd f) < mtime (snd p)")
    case True
    with Cons [of p] show ?thesis by simp
  next
    case False
    with Cons [of f] show ?thesis by simp
  qed
qed

lemma max_mtime_ge: "g \<in> set (f # fs) \<Longrightarrow> mtime (snd g) \<le> mtime (snd (max_mtime f fs))"
proof (induction fs arbitrary: f)
  case Nil
  then show ?case by simp
next
  case (Cons p ps)
  let ?best = "if mtime (snd f) < mtime (snd p) then p else f"
  have step: "max_mtime f (p # ps) = max_mtime ?best ps" by simp
  have best: "mtime (snd f) \<le> mtime (snd ?best)" "mtime (snd p) \<le> mtime (snd ?best)" by auto
  from Cons.prems consider "g = f" | "g = p" | "g \<in> set ps" by auto
  then show ?case
  proof cases
    case 1
    with best(1) max_mtime_mono [of ?best ps] step show ?thesis by (metis order_trans)
  next
    case 2
    with best(2) max_mtime_mono [of ?best ps] step show ?thesis by (metis order_trans)
  next
    case 3
    then have "g \<in> set (?best # ps)" by simp
    from Cons.IH [OF this] step show ?thesis by simp
  qed
qed

lemma scan_behaviors_Cons: "scan_behaviors rd run (b # bs) = scan_behaviors rd run [b] @ scan_behaviors rd run bs"
  by (simp split: list.split add: Let_def)

lemma scan_behaviors_mem:
  "e \<in> set (scan_behaviors rd run bs) \<Longrightarrow>
     run_id e = run \<and> (\<exists>b \<in> set bs. is_dir (snd b) \<and> glob_events (snd b) \<noteq> [] \<and> behavior e = fst b)"
  by (induction bs) (auto split: if_splits list.splits simp: Let_def)

lemma scan_behaviors_filter:
  "distinct (map fst bs) \<Longrightarrow> b \<in> set bs \<Longrightarrow>
     filter (\<lambda>e. behavior e = fst b) (scan_behaviors rd run bs) = scan_behaviors rd run [b]"
proof (induction bs)
  case Nil
  then show ?case by simp
next
  case (Cons c cs)
  have other: "filter (\<lambda>e. behavior e = x) (scan_behaviors rd run ds) = []" if "x \<notin> fst ` set ds" for x ds
    using that scan_behaviors_mem [of _ rd run ds] by (auto simp: filter_empty_conv)
  have one: "filter (\<lambda>e. behavior e = fst c) (scan_behaviors rd run [c]) = scan_behaviors rd run [c]"
    by (simp split: list.split add: Let_def)
  show ?case
  proof (cases "b = c")
    case True
    with Cons.prems have "fst b \<notin> fst ` set cs" by auto
    with True one other [of "fst b" cs] show ?thesis
      by (subst scan_behaviors_Cons) simp
  next
    case False
    with Cons.prems have b: "b \<in> set cs" and d: "distinct (map fst cs)" and ne: "fst b \<noteq> fst c"
      by (auto simp: image_iff)
    from ne have "fst b \<notin> fst ` set [c]" by simp
    from other [OF this] Cons.IH [OF d b] show ?thesis
      by (subst scan_behaviors_Cons) simp
  qed
qed

lemma scan_runs_mem:
  "e \<in> set (scan_runs rd rs) \<Longrightarrow>
     \<exists>r \<in> set rs. is_dir (snd r) \<and> e \<in> set (scan_behaviors rd (fst r) (iterdir (snd r)))"
  by (induction rs) (auto split: if_splits)

lemma scan_runs_run_id: "e \<in> set (scan_runs rd rs) \<Longrightarrow> run_id e \<in> fst ` set rs"
  using scan_runs_mem [of e rd rs] scan_behaviors_mem [of e rd] by fastforce

lemma scan_behaviors_all_run: "filter (\<lambda>e. run_id e = run) (scan_behaviors rd run bs) = scan_behaviors rd run bs"
  using scan_behaviors_mem [of _ rd run bs] by (auto simp: filter_id_conv)

lemma scan_runs_filter:
  "distinct (map fst rs) \<Longrightarrow> r \<in> set rs \<Longrightarrow>
     filter (\<lambda>e. run_id e = fst r) (scan_runs rd rs) = scan_behaviors rd (fst r) (iterdir (snd r))"
proof (induction rs)
  case Nil
  then show ?case by simp
next
  case (Cons c cs)
  have other: "filter (\<lambda>e. run_id e = x) (scan_runs rd ds) = []" if "x \<notin> fst ` set ds" for x ds
    using that scan_runs_run_id [of _ rd ds] by (auto simp: filter_empty_conv)
  have other1: "filter (\<lambda>e. run_id e = x) (scan_behaviors rd y bs) = []" if "x \<noteq> y" for x y bs
    using that scan_behaviors_mem [of _ rd y bs] by (auto simp: filter_empty_conv)
  have nodir: "scan_behaviors rd x (iterdir n) = []" if "\<not> is_dir n" for x n
    using that by (cases n) auto
  show ?case
  proof (cases "r = c")
    case True
    with Cons.prems have "fst r \<notin> fst ` set cs" by auto
    from other [OF this] True nodir [of "snd c" "fst c"] show ?thesis
      by (simp add: scan_behaviors_all_run)
  next
    case False
    with Cons.prems have r: "r \<in> set cs" and d: "distinct (map fst cs)" and ne: "fst r \<noteq> fst c"
      by (auto simp: image_iff)
    from other1 [OF ne] Cons.IH [OF d r] show ?thesis by simp
  qed
qed

lemma sorted_map_const: "\<forall>x \<in> set xs. f x = (c::'b::linorder) \<Longrightarrow> sorted (map f xs)"
  by (induction xs) auto

lemma scan_runs_sorted: "sorted (map fst rs) \<Longrightarrow> sorted (map run_id (scan_runs rd rs))"
proof (induction rs)
  case Nil
  then show ?case by simp
next
  case (Cons c cs)
  then have IH: "sorted (map run_id (scan_runs rd cs))" and le: "\<forall>x \<in> set cs. fst c \<le> fst x" by auto
  have a: "\<forall>e \<in> set (scan_behaviors rd (fst c) (iterdir (snd c))). run_id e = fst c"
    using scan_behaviors_mem by blast
  have b: "\<forall>e \<in> set (scan_runs rd cs). fst c \<le> run_id e"
  proof
    fix e assume "e \<in> set (scan_runs rd cs)"
    then obtain x where "x \<in> set cs" "run_id e = fst x"
      using scan_runs_run_id [of e rd cs] by auto
    with le show "fst c \<le> run_id e" by simp
  qed
  have "sorted (map run_id (scan_behaviors rd (fst c) (iterdir (snd c))))"
    using a by (rule sorted_map_const)
  with IH a b show ?case by (auto simp: sorted_append)
qed

text \<open>
  What the code returns, stated over the entries the pattern matches, of any kind.
  Where the results directory does not exist, \<^verbatim>\<open>discover_runs\<close> returns the empty list.
  Where it is a directory (in which, as in every directory, names are distinct), the
  list returned has its run ids in name order; for a behavior directory in which the
  pattern matches nothing it has no entry; for one in which the pattern matches
  something it has exactly one entry, of a matching entry whose modification time is
  the maximum over the matching entries; and it has no other entries.
\<close>

lemma discover_runs_entries:
  assumes "distinct (map fst runs)"
    and "list_all (\<lambda>r. distinct (map fst (iterdir (snd r)))) runs"
  shows "discover_runs rd None = Inr [] \<and>
    (\<exists>refs. discover_runs rd (Some (Dir t runs)) = Inr refs \<and>
       sorted (map run_id refs) \<and>
       (\<forall>r \<in> set runs. \<forall>b \<in> set (iterdir (snd r)). is_dir (snd b) \<longrightarrow>
          (glob_events (snd b) = [] \<longrightarrow>
             filter (\<lambda>e. run_id e = fst r \<and> behavior e = fst b) refs = []) \<and>
          (glob_events (snd b) \<noteq> [] \<longrightarrow>
             (\<exists>f \<in> set (glob_events (snd b)).
                (\<forall>g \<in> set (glob_events (snd b)). mtime (snd g) \<le> mtime (snd f)) \<and>
                filter (\<lambda>e. run_id e = fst r \<and> behavior e = fst b) refs =
                  [\<lparr>run_id = fst r, behavior = fst b,
                    event_path = rd @ [fst r, fst b, fst f], updated_at = mtime (snd f)\<rparr>]))) \<and>
       (\<forall>e \<in> set refs. \<exists>r \<in> set runs. \<exists>b \<in> set (iterdir (snd r)).
          is_dir (snd r) \<and> is_dir (snd b) \<and> glob_events (snd b) \<noteq> [] \<and>
          run_id e = fst r \<and> behavior e = fst b))"
proof -
  let ?rs = "sort_key fst runs"
  let ?refs = "scan_runs rd ?rs"
  have eq: "discover_runs rd (Some (Dir t runs)) = Inr ?refs"
    by (simp add: discover_runs_def)
  have d: "distinct (map fst ?rs)"
    using assms(1) by (metis distinct_map distinct_sort set_sort)
  have srt: "sorted (map run_id ?refs)"
    by (rule scan_runs_sorted) simp
  have pick: "filter (\<lambda>e. run_id e = fst r \<and> behavior e = fst b) ?refs = scan_behaviors rd (fst r) [b]"
    if r: "r \<in> set runs" and b: "b \<in> set (iterdir (snd r))" for r b
  proof -
    have db: "distinct (map fst (iterdir (snd r)))"
      using assms(2) r by (simp add: list_all_iff)
    have "filter (\<lambda>e. run_id e = fst r \<and> behavior e = fst b) ?refs =
          filter (\<lambda>e. behavior e = fst b) (filter (\<lambda>e. run_id e = fst r) ?refs)"
      by (simp add: conj_commute)
    also have "filter (\<lambda>e. run_id e = fst r) ?refs = scan_behaviors rd (fst r) (iterdir (snd r))"
      using d r by (intro scan_runs_filter) simp_all
    also have "filter (\<lambda>e. behavior e = fst b) \<dots> = scan_behaviors rd (fst r) [b]"
      using db b by (rule scan_behaviors_filter)
    finally show ?thesis .
  qed
  have per: "(glob_events (snd b) = [] \<longrightarrow>
             filter (\<lambda>e. run_id e = fst r \<and> behavior e = fst b) ?refs = []) \<and>
          (glob_events (snd b) \<noteq> [] \<longrightarrow>
             (\<exists>f \<in> set (glob_events (snd b)).
                (\<forall>g \<in> set (glob_events (snd b)). mtime (snd g) \<le> mtime (snd f)) \<and>
                filter (\<lambda>e. run_id e = fst r \<and> behavior e = fst b) ?refs =
                  [\<lparr>run_id = fst r, behavior = fst b,
                    event_path = rd @ [fst r, fst b, fst f], updated_at = mtime (snd f)\<rparr>]))"
    if r: "r \<in> set runs" and b: "b \<in> set (iterdir (snd r))" and dir: "is_dir (snd b)" for r b
  proof (cases "glob_events (snd b)")
    case Nil
    with pick [OF r b] dir show ?thesis by simp
  next
    case (Cons f fs)
    let ?m = "max_mtime f fs"
    have m1: "?m \<in> set (glob_events (snd b))"
      using max_mtime_mem [of f fs] Cons by simp
    have m2: "\<forall>g \<in> set (glob_events (snd b)). mtime (snd g) \<le> mtime (snd ?m)"
      using max_mtime_ge [of _ f fs] Cons by simp
    have m3: "filter (\<lambda>e. run_id e = fst r \<and> behavior e = fst b) ?refs =
        [\<lparr>run_id = fst r, behavior = fst b,
          event_path = rd @ [fst r, fst b, fst ?m], updated_at = mtime (snd ?m)\<rparr>]"
      using pick [OF r b] dir Cons by (simp add: Let_def)
    have ne: "glob_events (snd b) \<noteq> []" using Cons by simp
    show ?thesis
    proof (intro conjI impI)
      assume "glob_events (snd b) = []"
      with ne show "filter (\<lambda>e. run_id e = fst r \<and> behavior e = fst b) ?refs = []" by simp
    next
      from m2 m3 show "\<exists>f \<in> set (glob_events (snd b)).
                (\<forall>g \<in> set (glob_events (snd b)). mtime (snd g) \<le> mtime (snd f)) \<and>
                filter (\<lambda>e. run_id e = fst r \<and> behavior e = fst b) ?refs =
                  [\<lparr>run_id = fst r, behavior = fst b,
                    event_path = rd @ [fst r, fst b, fst f], updated_at = mtime (snd f)\<rparr>]"
        by (intro bexI [OF _ m1] conjI)
    qed
  qed
  have origin: "\<exists>r \<in> set runs. \<exists>b \<in> set (iterdir (snd r)).
          is_dir (snd r) \<and> is_dir (snd b) \<and> glob_events (snd b) \<noteq> [] \<and>
          run_id e = fst r \<and> behavior e = fst b" if "e \<in> set ?refs" for e
  proof -
    from scan_runs_mem [OF that] obtain r where r: "r \<in> set runs" "is_dir (snd r)"
      and e: "e \<in> set (scan_behaviors rd (fst r) (iterdir (snd r)))" by auto
    from scan_behaviors_mem [OF e] r show ?thesis by blast
  qed
  have "discover_runs rd None = Inr []" by (simp add: discover_runs_def)
  with eq srt per origin show ?thesis by blast
qed

lemma discover_runs_entries_example:
  "distinct (map fst (iterdir tree0)) \<and>
   list_all (\<lambda>r. distinct (map fst (iterdir (snd r)))) (iterdir tree0) \<and>
   discover_runs [''results''] (Some tree0) = Inr
     [\<lparr>run_id = ''run1'', behavior = ''AgentA'',
       event_path = [''results'', ''run1'', ''AgentA'', ''events.out.tfevents.2''],
       updated_at = 20\<rparr>,
      \<lparr>run_id = ''run2'', behavior = ''AgentB'',
       event_path = [''results'', ''run2'', ''AgentB'', ''events.out.tfevents.1''],
       updated_at = 10\<rparr>]"
proof -
  have h1: "distinct (map fst (iterdir tree0))" by (simp add: tree0_def)
  have h2: "list_all (\<lambda>r. distinct (map fst (iterdir (snd r)))) (iterdir tree0)"
    by (simp add: tree0_def)
  have t: "tree0 = Dir 0 (iterdir tree0)" by (simp add: tree0_def)
  from discover_runs_entries [OF h1 h2, of "[''results'']" 0]
  obtain refs where refs: "discover_runs [''results''] (Some tree0) = Inr refs"
    using t by auto
  have "discover_runs [''results''] (Some tree0) = Inr
     [\<lparr>run_id = ''run1'', behavior = ''AgentA'',
       event_path = [''results'', ''run1'', ''AgentA'', ''events.out.tfevents.2''],
       updated_at = 20\<rparr>,
      \<lparr>run_id = ''run2'', behavior = ''AgentB'',
       event_path = [''results'', ''run2'', ''AgentB'', ''events.out.tfevents.1''],
       updated_at = 10\<rparr>]"
    by (simp add: tree0_def discover_runs_def glob_events_def matches_event_pattern_def)
  with h1 h2 refs show ?thesis by simp
qed

text \<open>
  The same, in the words of the claim, for a results directory in which no directory
  has the name of an event file.
\<close>

lemma discover_runs_entries_files:
  assumes "distinct (map fst runs)"
    and "list_all (\<lambda>r. distinct (map fst (iterdir (snd r)))) runs"
    and "list_all (\<lambda>r. list_all (\<lambda>b. glob_events (snd b) = event_files (snd b))
           (iterdir (snd r))) runs"
  shows "\<exists>refs. discover_runs rd (Some (Dir t runs)) = Inr refs \<and>
       sorted (map run_id refs) \<and>
       (\<forall>r \<in> set runs. \<forall>b \<in> set (iterdir (snd r)). is_dir (snd b) \<longrightarrow>
          (event_files (snd b) = [] \<longrightarrow>
             filter (\<lambda>e. run_id e = fst r \<and> behavior e = fst b) refs = []) \<and>
          (event_files (snd b) \<noteq> [] \<longrightarrow>
             (\<exists>f \<in> set (event_files (snd b)).
                (\<forall>g \<in> set (event_files (snd b)). mtime (snd g) \<le> mtime (snd f)) \<and>
                filter (\<lambda>e. run_id e = fst r \<and> behavior e = fst b) refs =
                  [\<lparr>run_id = fst r, behavior = fst b,
                    event_path = rd @ [fst r, fst b, fst f], updated_at = mtime (snd f)\<rparr>])))"
proof -
  from discover_runs_entries [OF assms(1,2), of rd t]
  obtain refs where d: "discover_runs rd (Some (Dir t runs)) = Inr refs"
    and srt: "sorted (map run_id refs)"
    and per: "\<forall>r \<in> set runs. \<forall>b \<in> set (iterdir (snd r)). is_dir (snd b) \<longrightarrow>
          (glob_events (snd b) = [] \<longrightarrow>
             filter (\<lambda>e. run_id e = fst r \<and> behavior e = fst b) refs = []) \<and>
          (glob_events (snd b) \<noteq> [] \<longrightarrow>
             (\<exists>f \<in> set (glob_events (snd b)).
                (\<forall>g \<in> set (glob_events (snd b)). mtime (snd g) \<le> mtime (snd f)) \<and>
                filter (\<lambda>e. run_id e = fst r \<and> behavior e = fst b) refs =
                  [\<lparr>run_id = fst r, behavior = fst b,
                    event_path = rd @ [fst r, fst b, fst f], updated_at = mtime (snd f)\<rparr>]))"
    by blast
  have same: "glob_events (snd b) = event_files (snd b)"
    if "r \<in> set runs" "b \<in> set (iterdir (snd r))" for r b
    using assms(3) that by (simp add: list_all_iff)
  have "\<forall>r \<in> set runs. \<forall>b \<in> set (iterdir (snd r)). is_dir (snd b) \<longrightarrow>
          (event_files (snd b) = [] \<longrightarrow>
             filter (\<lambda>e. run_id e = fst r \<and> behavior e = fst b) refs = []) \<and>
          (event_files (snd b) \<noteq> [] \<longrightarrow>
             (\<exists>f \<in> set (event_files (snd b)).
                (\<forall>g \<in> set (event_files (snd b)). mtime (snd g) \<le> mtime (snd f)) \<and>
                filter (\<lambda>e. run_id e = fst r \<and> behavior e = fst b) refs =
                  [\<lparr>run_id = fst r, behavior = fst b,
                    event_path = rd @ [fst r, fst b, fst f], updated_at = mtime (snd f)\<rparr>]))"
  proof (intro ballI)
    fix r b assume rb: "r \<in> set runs" "b \<in> set (iterdir (snd r))"
    from per rb show "is_dir (snd b) \<longrightarrow>
          (event_files (snd b) = [] \<longrightarrow>
             filter (\<lambda>e. run_id e = fst r \<and> behavior e = fst b) refs = []) \<and>
          (event_files (snd b) \<noteq> [] \<longrightarrow>
             (\<exists>f \<in> set (event_files (snd b)).
                (\<forall>g \<in> set (event_files (snd b)). mtime (snd g) \<le> mtime (snd f)) \<and>
                filter (\<lambda>e. run_id e = fst r \<and> behavior e = fst b) refs =
                  [\<lparr>run_id = fst r, behavior = fst b,
                    event_path = rd @ [fst r, fst b, fst f], updated_at = mtime (snd f)\<rparr>]))"
      unfolding same [OF rb, symmetric] by blast
  qed
  with d srt show ?thesis by blast
qed

text \<open>
  Claim C4. The claim gives a behavior directory with no file of the event-file name no
  entry, and one with such files the entry of the file with the maximum modification
  time. The code does not meet it where a directory has such a name: the pattern
  matches entries of any kind, and unlike the two levels above, where the code tests
  \<^verbatim>\<open>is_dir\<close>, the matches are not tested for being files. In the example tree the
  behavior directory \<^verbatim>\<open>AgentA\<close> holds no event file and still gets an entry, the
  directory; and for \<^verbatim>\<open>AgentB\<close> the newer directory is returned in place of the one
  event file there is.
\<close>

theorem discover_runs_matching_directory:
  "event_files only_dir = [] \<and>
   event_files dir_beside_file = [(''events.out.tfevents.1'', File 10)] \<and>
   discover_runs [''results''] (Some tree_dirs) = Inr
     [\<lparr>run_id = ''run1'', behavior = ''AgentA'',
       event_path = [''results'', ''run1'', ''AgentA'', ''events.out.tfevents.zdir''],
       updated_at = 30\<rparr>,
      \<lparr>run_id = ''run1'', behavior = ''AgentB'',
       event_path = [''results'', ''run1'', ''AgentB'', ''events.out.tfevents.zdir''],
       updated_at = 30\<rparr>]"
  by (simp add: event_files_def glob_events_def matches_event_pattern_def only_dir_def
      dir_beside_file_def tree_dirs_def discover_runs_def)

subsection \<open>The runs listing\<close>

lemma summary_of_other: "run_id r \<noteq> k \<Longrightarrow> summary_of (ps @ [r]) k = summary_of ps k"
proof -
  assume ne: "run_id r \<noteq> k"
  then have "{x \<in> set (ps @ [r]). run_id x = k} = {x \<in> set ps. run_id x = k}" by auto
  with ne show ?thesis by (simp add: summary_of_def)
qed

lemma summary_of_fresh:
  "run_id r \<notin> run_id ` set ps \<Longrightarrow>
   summary_of (ps @ [r]) (run_id r) =
     \<lparr>rs_id = run_id r,
      rs_behaviors = [\<lparr>bs_name = behavior r, bs_event_path = event_path r, bs_updated_at = updated_at r\<rparr>],
      rs_latest_update = updated_at r\<rparr>"
proof -
  assume fresh: "run_id r \<notin> run_id ` set ps"
  then have other: "\<And>x. x \<in> set ps \<Longrightarrow> run_id x \<noteq> run_id r" by (metis imageI)
  then have s: "{x \<in> set (ps @ [r]). run_id x = run_id r} = {r}" by auto
  from other have f: "filter (\<lambda>x. run_id x = run_id r) ps = []"
    by (simp add: filter_empty_conv)
  show ?thesis unfolding summary_of_def s by (simp add: f)
qed

lemma summary_of_seen:
  "run_id r \<in> run_id ` set ps \<Longrightarrow>
   summary_of (ps @ [r]) (run_id r) =
     (summary_of ps (run_id r))
       \<lparr>rs_behaviors := rs_behaviors (summary_of ps (run_id r)) @
          [\<lparr>bs_name = behavior r, bs_event_path = event_path r, bs_updated_at = updated_at r\<rparr>],
        rs_latest_update := max (rs_latest_update (summary_of ps (run_id r))) (updated_at r)\<rparr>"
proof -
  assume seen: "run_id r \<in> run_id ` set ps"
  let ?A = "{x \<in> set ps. run_id x = run_id r}"
  have s: "{x \<in> set (ps @ [r]). run_id x = run_id r} = insert r ?A" by auto
  have ne: "updated_at ` ?A \<noteq> {}" using seen by auto
  have fin: "finite (updated_at ` ?A)" by simp
  have "Max (updated_at ` insert r ?A) = max (updated_at r) (Max (updated_at ` ?A))"
    using Max_insert [OF fin ne] by simp
  then show ?thesis unfolding summary_of_def s by (simp add: max.commute)
qed

lemma group_runs_map_of:
  "distinct (map fst g) \<Longrightarrow>
   (\<forall>k. map_of g k = (if k \<in> run_id ` set ps then Some (summary_of ps k) else None)) \<Longrightarrow>
   distinct (map fst (group_runs rs g)) \<and>
   (\<forall>k. map_of (group_runs rs g) k =
      (if k \<in> run_id ` set (ps @ rs) then Some (summary_of (ps @ rs) k) else None))"
proof (induction rs arbitrary: g ps)
  case Nil
  then show ?case by simp
next
  case (Cons r rs)
  let ?k = "run_id r"
  let ?b = "\<lparr>bs_name = behavior r, bs_event_path = event_path r, bs_updated_at = updated_at r\<rparr>"
  let ?g1 = "if map_of g ?k = None
             then AList.update ?k \<lparr>rs_id = ?k, rs_behaviors = [], rs_latest_update = updated_at r\<rparr> g
             else g"
  let ?g2 = "AList.map_entry ?k (\<lambda>g. g\<lparr>rs_behaviors := rs_behaviors g @ [?b]\<rparr>) ?g1"
  let ?g3 = "AList.map_entry ?k (\<lambda>g. g\<lparr>rs_latest_update := max (rs_latest_update g) (updated_at r)\<rparr>) ?g2"
  have step: "group_runs (r # rs) g = group_runs rs ?g3" by (simp add: Let_def)
  have d3: "distinct (map fst ?g3)"
    using Cons.prems(1) by (simp add: distinct_map_entry distinct_update)
  have m3: "map_of ?g3 k = (if k \<in> run_id ` set (ps @ [r]) then Some (summary_of (ps @ [r]) k) else None)" for k
  proof (cases "k = ?k")
    case False
    then have "map_of ?g3 k = map_of g k"
      by (simp add: map_of_map_entry update_conv')
    with False Cons.prems(2) show ?thesis by (auto simp: summary_of_other)
  next
    case True
    show ?thesis
    proof (cases "?k \<in> run_id ` set ps")
      case seen: True
      with Cons.prems(2) have "map_of g ?k = Some (summary_of ps ?k)" by simp
      then have "map_of ?g3 ?k = Some ((summary_of ps ?k)
         \<lparr>rs_behaviors := rs_behaviors (summary_of ps ?k) @ [?b],
          rs_latest_update := max (rs_latest_update (summary_of ps ?k)) (updated_at r)\<rparr>)"
        by (simp add: map_of_map_entry)
      with True summary_of_seen [OF seen] show ?thesis by simp
    next
      case fresh: False
      with Cons.prems(2) have "map_of g ?k = None" by simp
      then have "map_of ?g3 ?k = Some \<lparr>rs_id = ?k, rs_behaviors = [?b], rs_latest_update = updated_at r\<rparr>"
        by (simp add: map_of_map_entry update_conv')
      with True summary_of_fresh [OF fresh] show ?thesis by simp
    qed
  qed
  from Cons.IH [of ?g3 "ps @ [r]", OF d3] m3 step show ?case by simp
qed

lemma group_runs_empty:
  "distinct (map fst (group_runs runs [])) \<and>
   set (group_runs runs []) = (\<lambda>k. (k, summary_of runs k)) ` run_id ` set runs"
proof -
  let ?g = "group_runs runs []"
  from group_runs_map_of [of "[]" "[]" runs]
  have d: "distinct (map fst ?g)"
    and m: "\<And>k. map_of ?g k = (if k \<in> run_id ` set runs then Some (summary_of runs k) else None)"
    by simp_all
  have "(k, v) \<in> set ?g \<longleftrightarrow> (k \<in> run_id ` set runs \<and> v = summary_of runs k)" for k v
    using map_of_eq_Some_iff [OF d, of k v] m [of k] by (auto split: if_splits)
  then have "set ?g = (\<lambda>k. (k, summary_of runs k)) ` run_id ` set runs"
    by (auto simp: image_iff)
  with d show ?thesis by simp
qed

text \<open>
  Claim C5. Where discovery returns, the runs listing is answered 200 with one summary
  for each run id of the discovery output, each one the summary of the specification
  (the run id, the behaviors of that run with their paths and modification times in
  discovery order, and the maximum of their modification times), in ascending order of
  \<^verbatim>\<open>latest_update\<close>.
\<close>

theorem handle_runs_groups_sorted:
  assumes "discover_runs (results_dir cfg) (tree w) = Inr runs"
  shows "\<exists>out. handle_runs cfg w = Inr \<lparr>status = 200, body = RunsPayload out\<rparr> \<and>
     sorted (map rs_latest_update out) \<and>
     distinct (map rs_id out) \<and>
     set out = summary_of runs ` run_id ` set runs"
proof -
  let ?g = "group_runs runs []"
  let ?out = "sort_key rs_latest_update (map snd ?g)"
  from group_runs_empty [of runs]
  have d: "distinct (map fst ?g)"
    and s: "set ?g = (\<lambda>k. (k, summary_of runs k)) ` run_id ` set runs" by simp_all
  have ids: "map rs_id (map snd ?g) = map fst ?g"
  proof -
    have "\<forall>e \<in> set ?g. rs_id (snd e) = fst e"
      unfolding s by (auto simp: summary_of_def)
    then show ?thesis by (simp add: map_eq_conv)
  qed
  have "set ?out = snd ` set ?g" by simp
  also have "\<dots> = summary_of runs ` run_id ` set runs"
    unfolding s by (simp add: image_image)
  finally have a: "set ?out = summary_of runs ` run_id ` set runs" .
  have "distinct (map rs_id (map snd ?g))" unfolding ids by (rule d)
  then have dm: "distinct (map rs_id ?out)"
    by (metis distinct_map distinct_sort set_sort)
  have c: "sorted (map rs_latest_update ?out)" by simp
  have "handle_runs cfg w = Inr \<lparr>status = 200, body = RunsPayload ?out\<rparr>"
    using assms by (simp add: handle_runs_def write_json_def)
  with a dm c show ?thesis by blast
qed

theorem handle_runs_groups_sorted_witness:
  "discover_runs (results_dir cfg0) (tree w0) = Inr
     [\<lparr>run_id = ''run1'', behavior = ''AgentA'',
       event_path = [''results'', ''run1'', ''AgentA'', ''events.out.tfevents.2''],
       updated_at = 20\<rparr>,
      \<lparr>run_id = ''run2'', behavior = ''AgentB'',
       event_path = [''results'', ''run2'', ''AgentB'', ''events.out.tfevents.1''],
       updated_at = 10\<rparr>] \<and>
   handle_runs cfg0 w0 = Inr \<lparr>status = 200, body = RunsPayload
     [\<lparr>rs_id = ''run2'',
       rs_behaviors = [\<lparr>bs_name = ''AgentB'',
          bs_event_path = [''results'', ''run2'', ''AgentB'', ''events.out.tfevents.1''],
          bs_updated_at = 10\<rparr>],
       rs_latest_update = 10\<rparr>,
      \<lparr>rs_id = ''run1'',
       rs_behaviors = [\<lparr>bs_name = ''AgentA'',
          bs_event_path = [''results'', ''run1'', ''AgentA'', ''events.out.tfevents.2''],
          bs_updated_at = 20\<rparr>],
       rs_latest_update = 20\<rparr>]\<rparr>"
proof -
  have h: "discover_runs (results_dir cfg0) (tree w0) = Inr
     [\<lparr>run_id = ''run1'', behavior = ''AgentA'',
       event_path = [''results'', ''run1'', ''AgentA'', ''events.out.tfevents.2''],
       updated_at = 20\<rparr>,
      \<lparr>run_id = ''run2'', behavior = ''AgentB'',
       event_path = [''results'', ''run2'', ''AgentB'', ''events.out.tfevents.1''],
       updated_at = 10\<rparr>]"
    by (simp add: cfg0_def w0_def tree0_def discover_runs_def glob_events_def matches_event_pattern_def)
  from handle_runs_groups_sorted [OF h]
  obtain out where "handle_runs cfg0 w0 = Inr \<lparr>status = 200, body = RunsPayload out\<rparr>" by blast
  moreover have "handle_runs cfg0 w0 = Inr (write_json (RunsPayload
     [\<lparr>rs_id = ''run2'',
       rs_behaviors = [\<lparr>bs_name = ''AgentB'',
          bs_event_path = [''results'', ''run2'', ''AgentB'', ''events.out.tfevents.1''],
          bs_updated_at = 10\<rparr>],
       rs_latest_update = 10\<rparr>,
      \<lparr>rs_id = ''run1'',
       rs_behaviors = [\<lparr>bs_name = ''AgentA'',
          bs_event_path = [''results'', ''run1'', ''AgentA'', ''events.out.tfevents.2''],
          bs_updated_at = 20\<rparr>],
       rs_latest_update = 20\<rparr>]) 200)"
    unfolding handle_runs_def h by (simp add: Let_def)
  ultimately show ?thesis using h by (simp add: write_json_def)
qed

subsection \<open>Query parameters and error responses\<close>

lemma parse_qs_into_lookup:
  "parse_qs_into m q k =
     (let vals = map snd (filter (\<lambda>f. fst f = k \<and> snd f \<noteq> []) q)
      in case m k of
           None \<Rightarrow> (if vals = [] then None else Some vals)
         | Some vs \<Rightarrow> Some (vs @ vals))"
proof (induction q arbitrary: m)
  case Nil
  then show ?case by (simp split: option.split)
next
  case (Cons f fs)
  show ?case
  proof (cases "snd f = []")
    case True
    with Cons [of m] show ?thesis by simp
  next
    case False
    let ?m = "m(fst f \<mapsto> (case m (fst f) of None \<Rightarrow> [snd f] | Some vs \<Rightarrow> vs @ [snd f]))"
    have step: "parse_qs_into m (f # fs) k = parse_qs_into ?m fs k" using False by simp
    show ?thesis
    proof (cases "fst f = k")
      case same: True
      then have mk: "?m k = Some (case m k of None \<Rightarrow> [snd f] | Some vs \<Rightarrow> vs @ [snd f])"
        by simp
      show ?thesis
        unfolding step Cons [of ?m] using False same
        by (cases "m k") (simp_all add: Let_def)
    next
      case other: False
      then have mk: "?m k = m k" by simp
      show ?thesis
        unfolding step Cons [of ?m] mk using False other by (simp add: Let_def)
    qed
  qed
qed

lemma param0_parse_qs: "param0 (parse_qs q) k = Inr (first_value q k)"
proof (cases "filter (\<lambda>f. fst f = k \<and> snd f \<noteq> []) q")
  case Nil
  then show ?thesis
    by (simp add: param0_def parse_qs_def first_value_def parse_qs_into_lookup)
next
  case (Cons f fs)
  then show ?thesis
    by (simp add: param0_def parse_qs_def first_value_def parse_qs_into_lookup)
qed

lemma first_value_not_blank: "first_value q k \<noteq> Some []"
proof
  assume a: "first_value q k = Some []"
  then obtain f fs where f: "filter (\<lambda>f. fst f = k \<and> snd f \<noteq> []) q = f # fs" and "snd f = []"
    by (auto simp: first_value_def split: list.splits)
  from f have "f \<in> set (filter (\<lambda>f. fst f = k \<and> snd f \<noteq> []) q)" by simp
  with \<open>snd f = []\<close> show False by simp
qed

lemma handle_metrics_unfold:
  "handle_metrics to_int cfg w q s =
     (case first_value q ''run'' of
        None \<Rightarrow> (Inr \<lparr>status = 400, body = ErrorPayload ''run and behavior are required''\<rparr>, s)
      | Some r \<Rightarrow>
          (case first_value q ''behavior'' of
             None \<Rightarrow> (Inr \<lparr>status = 400, body = ErrorPayload ''run and behavior are required''\<rparr>, s)
           | Some b \<Rightarrow>
               (case find_event_file cfg w r b of
                  Inl e \<Rightarrow> (Inl e, s)
                | Inr None \<Rightarrow> (Inr \<lparr>status = 404, body = ErrorPayload (not_found_message r b)\<rparr>, s)
                | Inr (Some ef) \<Rightarrow>
                    metrics_of cfg w r b (effective_limit to_int (first_value q ''limit'')) ef s)))"
  using first_value_not_blank [of q "''run''"] first_value_not_blank [of q "''behavior''"]
  by (simp add: handle_metrics_def param0_parse_qs write_json_def Let_def
      split: option.split sum.split)




lemma find_no_match:
  "\<not> (\<exists>ref \<in> set runs. run_id ref = r \<and> behavior ref = b) \<Longrightarrow>
     find (\<lambda>run. run_id run = r \<and> behavior run = b) runs = None"
  by (simp add: find_None_iff)

text \<open>
  Claim C7. Where the query gives \<^verbatim>\<open>run\<close> or \<^verbatim>\<open>behavior\<close> no value (the field is absent,
  or every value of it is blank), the handler answers 400 with the error
  \<^verbatim>\<open>run and behavior are required\<close> and leaves the state as it was, whatever the other
  fields, the file system and the state are.
\<close>

theorem metrics_missing_parameter_400:
  assumes "first_value q ''run'' = None \<or> first_value q ''behavior'' = None"
  shows "handle_metrics to_int cfg w q s =
     (Inr \<lparr>status = 400, body = ErrorPayload ''run and behavior are required''\<rparr>, s)"
  using assms unfolding handle_metrics_unfold by (auto split: option.split)

theorem metrics_missing_parameter_400_witness:
  "first_value [(''behavior'', ''AgentA'')] ''run'' = None \<and>
   handle_metrics int0 cfg0 w0 [(''behavior'', ''AgentA'')] init_state =
     (Inr \<lparr>status = 400, body = ErrorPayload ''run and behavior are required''\<rparr>, init_state) \<and>
   first_value [(''run'', ''run1''), (''behavior'', ''''), (''limit'', ''50'')] ''behavior'' = None \<and>
   handle_metrics int0 cfg0 w0 [(''run'', ''run1''), (''behavior'', ''''), (''limit'', ''50'')] init_state =
     (Inr \<lparr>status = 400, body = ErrorPayload ''run and behavior are required''\<rparr>, init_state)"
proof -
  have a: "first_value [(''behavior'', ''AgentA'')] ''run'' = None"
    by (simp add: first_value_def)
  have b: "first_value [(''run'', ''run1''), (''behavior'', ''''), (''limit'', ''50'')] ''behavior'' = None"
    by (simp add: first_value_def)
  from a b metrics_missing_parameter_400 [of "[(''behavior'', ''AgentA'')]" int0 cfg0 w0 init_state]
    metrics_missing_parameter_400 [of "[(''run'', ''run1''), (''behavior'', ''''), (''limit'', ''50'')]" int0 cfg0 w0 init_state]
  show ?thesis by simp
qed

text \<open>
  Claim C6. Where the query gives both \<^verbatim>\<open>run\<close> and \<^verbatim>\<open>behavior\<close> a value, discovery
  returns, and no entry of its output has that run id and that behavior (equality of
  strings, so case matters), the handler answers 404 with the message that names both,
  each between apostrophes (\<open>CHR 0x27\<close>). A field is present when it has a value that is
  not blank: \<^verbatim>\<open>parse_qs\<close> drops blank values, and claim C7 covers them.
\<close>

theorem metrics_unknown_pair_404:
  assumes "first_value q ''run'' = Some r"
    and "first_value q ''behavior'' = Some b"
    and "discover_runs (results_dir cfg) (tree w) = Inr runs"
    and "\<not> (\<exists>ref \<in> set runs. run_id ref = r \<and> behavior ref = b)"
  shows "handle_metrics to_int cfg w q s =
     (Inr \<lparr>status = 404,
           body = ErrorPayload
             (''No event file found for run '' @ [CHR 0x27] @ r @ [CHR 0x27] @
              '' and behavior '' @ [CHR 0x27] @ b @ [CHR 0x27])\<rparr>, s)"
proof -
  have "find_event_file cfg w r b = Inr None"
    using assms(3) find_no_match [OF assms(4)] by (simp add: find_event_file_def)
  with assms(1,2) show ?thesis
    unfolding handle_metrics_unfold by (simp add: not_found_message_def)
qed

lemma discover_runs0: "discover_runs (results_dir cfg0) (tree w0) = Inr runs0"
  by (simp add: cfg0_def w0_def tree0_def runs0_def path0_def path1_def discover_runs_def
      glob_events_def matches_event_pattern_def)

lemma discover_runs0': "discover_runs (results_dir cfg1) (tree w0) = Inr runs0"
   "discover_runs (results_dir cfg0) (tree w1) = Inr runs0"
  using discover_runs0 by (simp_all add: cfg0_def cfg1_def w0_def w1_def)

theorem metrics_unknown_pair_404_witness:
  "first_value [(''run'', ''missing''), (''behavior'', ''x'')] ''run'' = Some ''missing'' \<and>
   first_value [(''run'', ''missing''), (''behavior'', ''x'')] ''behavior'' = Some ''x'' \<and>
   discover_runs (results_dir cfg0) (tree w0) = Inr runs0 \<and>
   \<not> (\<exists>ref \<in> set runs0. run_id ref = ''missing'' \<and> behavior ref = ''x'') \<and>
   handle_metrics int0 cfg0 w0 [(''run'', ''missing''), (''behavior'', ''x'')] init_state =
     (Inr \<lparr>status = 404,
           body = ErrorPayload
             (''No event file found for run 'missing' and behavior 'x'' @ [CHR 0x27])\<rparr>,
      init_state) \<and>
   \<not> (\<exists>ref \<in> set runs0. run_id ref = ''RUN1'' \<and> behavior ref = ''AgentA'') \<and>
   fst (handle_metrics int0 cfg0 w0 [(''run'', ''RUN1''), (''behavior'', ''AgentA'')] init_state) =
     Inr \<lparr>status = 404,
          body = ErrorPayload
            (''No event file found for run 'RUN1' and behavior 'AgentA'' @ [CHR 0x27])\<rparr>"
proof -
  have a: "first_value [(''run'', ''missing''), (''behavior'', ''x'')] ''run'' = Some ''missing''"
    "first_value [(''run'', ''missing''), (''behavior'', ''x'')] ''behavior'' = Some ''x''"
    by (simp_all add: first_value_def)
  have b: "\<not> (\<exists>ref \<in> set runs0. run_id ref = ''missing'' \<and> behavior ref = ''x'')"
    by (simp add: runs0_def)
  have c: "first_value [(''run'', ''RUN1''), (''behavior'', ''AgentA'')] ''run'' = Some ''RUN1''"
    "first_value [(''run'', ''RUN1''), (''behavior'', ''AgentA'')] ''behavior'' = Some ''AgentA''"
    by (simp_all add: first_value_def)
  have d: "\<not> (\<exists>ref \<in> set runs0. run_id ref = ''RUN1'' \<and> behavior ref = ''AgentA'')"
    by (simp add: runs0_def)
  from metrics_unknown_pair_404 [OF a discover_runs0 b, of int0 init_state]
    metrics_unknown_pair_404 [OF c discover_runs0 d, of int0 init_state]
    a b d discover_runs0
  show ?thesis by simp
qed

subsection \<open>The event cache\<close>

lemma map_of_add_scalar:
  "map_of (add_scalar e series) =
     (map_of series)(fst e \<mapsto> (case map_of series (fst e) of None \<Rightarrow> [snd e] | Some xs \<Rightarrow> xs @ [snd e]))"
  by (simp add: add_scalar_def map_of_map_default split: option.split)

lemma fold_add_scalar_extends:
  "map_of series tag = Some evs \<Longrightarrow>
     \<exists>more. map_of (fold add_scalar new series) tag = Some (evs @ more)"
proof (induction new arbitrary: series evs)
  case Nil
  then show ?case by simp
next
  case (Cons e es)
  show ?case
  proof (cases "fst e = tag")
    case True
    with Cons.prems have "map_of (add_scalar e series) tag = Some (evs @ [snd e])"
      by (simp add: map_of_add_scalar)
    from Cons.IH [OF this] show ?thesis by auto
  next
    case False
    with Cons.prems have "map_of (add_scalar e series) tag = Some evs"
      by (simp add: map_of_add_scalar)
    from Cons.IH [OF this] show ?thesis by simp
  qed
qed

lemma acc_path_Reload [simp]: "acc_path (Reload f acc) = acc_path acc"
  by (simp add: Reload_def Let_def)

lemma Reload_idem: "Reload f (Reload f acc) = Reload f acc"
  by (simp add: Reload_def Let_def)

lemma Reload_unchanged:
  "g (acc_path acc) = f (acc_path acc) \<Longrightarrow> Reload g (Reload f acc) = Reload f acc"
  by (simp add: Reload_def Let_def)

lemma Scalars_Reload_extends:
  "Scalars acc tag = Inr evs \<Longrightarrow> \<exists>more. Scalars (Reload f acc) tag = Inr (evs @ more)"
proof -
  assume "Scalars acc tag = Inr evs"
  then have "map_of (scalars acc) tag = Some evs"
    by (simp add: Scalars_def split: option.splits)
  from fold_add_scalar_extends [OF this]
  obtain more where
    "map_of (fold add_scalar (drop (consumed acc) (f (acc_path acc))) (scalars acc)) tag = Some (evs @ more)"
    by blast
  then show ?thesis by (auto simp: Scalars_def Reload_def Let_def)
qed

lemma update_fresh: "k \<notin> fst ` set al \<Longrightarrow> AList.update k v al = al @ [(k, v)]"
  by (induction al) auto

lemma wf_state_init: "wf_state init_state"
  by (simp add: wf_state_def init_state_def)

lemma wf_state_lookup:
  assumes "wf_state s" and "map_of (cache s) p = Some r"
  shows "r < length (heap s) \<and> acc_path (heap s ! r) = p"
proof -
  from assms(2) have mem: "(p, r) \<in> set (cache s)" by (rule map_of_SomeD)
  then have "r \<in> set (map snd (cache s))" by force
  with assms(1) have "r < length (heap s)" by (simp add: wf_state_def)
  moreover from assms(1) mem have "acc_path (heap s ! r) = p"
    by (auto simp: wf_state_def list_all_iff)
  ultimately show ?thesis by simp
qed

lemma get_missing_dependency:
  "\<not> tensorboard cfg \<Longrightarrow> get cfg w p s = (Inl (RuntimeError missing_dependency), s)"
  by (simp add: get_def)

lemma get_stored:
  assumes "tensorboard cfg" and "wf_state s" and "map_of (cache s) p = Some r"
  shows "get cfg w p s = (Inr r, s\<lparr>heap := (heap s)[r := Reload (files w) (heap s ! r)]\<rparr>)"
    and "wf_state (s\<lparr>heap := (heap s)[r := Reload (files w) (heap s ! r)]\<rparr>)"
proof -
  show "get cfg w p s = (Inr r, s\<lparr>heap := (heap s)[r := Reload (files w) (heap s ! r)]\<rparr>)"
    using assms by (simp add: get_def)
  from wf_state_lookup [OF assms(2,3)] have r: "r < length (heap s)" by simp
  have "acc_path ((heap s)[r := Reload (files w) (heap s ! r)] ! i) = acc_path (heap s ! i)" for i
    using r by (cases "i = r") simp_all
  with assms(2) show "wf_state (s\<lparr>heap := (heap s)[r := Reload (files w) (heap s ! r)]\<rparr>)"
    by (simp add: wf_state_def)
qed

lemma get_fresh:
  assumes "tensorboard cfg" and "wf_state s" and "map_of (cache s) p = None"
  shows "get cfg w p s =
      (Inr (length (heap s)),
       s\<lparr>heap := heap s @ [Reload (files w) (new_EventAccumulator p)],
         cache := cache s @ [(p, length (heap s))]\<rparr>)"
    and "wf_state (s\<lparr>heap := heap s @ [Reload (files w) (new_EventAccumulator p)],
         cache := cache s @ [(p, length (heap s))]\<rparr>)"
proof -
  from assms(3) have fresh: "p \<notin> fst ` set (cache s)" by (simp add: map_of_eq_None_iff)
  show "get cfg w p s =
      (Inr (length (heap s)),
       s\<lparr>heap := heap s @ [Reload (files w) (new_EventAccumulator p)],
         cache := cache s @ [(p, length (heap s))]\<rparr>)"
    using assms(1,3) by (simp add: get_def Let_def update_fresh [OF fresh])
  have old: "(heap s @ [a]) ! snd e = heap s ! snd e" if "e \<in> set (cache s)" for e a
  proof -
    from that have "snd e \<in> set (map snd (cache s))" by simp
    with assms(2) have "snd e < length (heap s)" by (simp add: wf_state_def)
    then show ?thesis by (simp add: nth_append)
  qed
  have new: "acc_path (Reload (files w) (new_EventAccumulator p)) = p"
    by (simp add: new_EventAccumulator_def)
  from assms(2) fresh old new
  show "wf_state (s\<lparr>heap := heap s @ [Reload (files w) (new_EventAccumulator p)],
         cache := cache s @ [(p, length (heap s))]\<rparr>)"
    by (auto simp: wf_state_def list_all_iff)
qed

lemma get_effect:
  assumes tb: "tensorboard cfg" and wf: "wf_state s"
  shows "\<exists>r s'. get cfg w p s = (Inr r, s') \<and> wf_state s' \<and>
     map_of (cache s') p = Some r \<and>
     (\<forall>p' r'. map_of (cache s) p' = Some r' \<longrightarrow> map_of (cache s') p' = Some r') \<and>
     fst ` set (cache s') = insert p (fst ` set (cache s)) \<and>
     length (heap s') = (if p \<in> fst ` set (cache s) then length (heap s) else Suc (length (heap s)))"
proof (cases "map_of (cache s) p")
  case None
  then have fresh: "p \<notin> fst ` set (cache s)" by (simp add: map_of_eq_None_iff)
  have "map_of (cache s @ [(p, length (heap s))]) p' = Some r'"
    if "map_of (cache s) p' = Some r'" for p' r'
    using that by (simp add: map_add_Some_iff)
  moreover have "map_of (cache s @ [(p, length (heap s))]) p = Some (length (heap s))"
    using None by (simp add: map_add_Some_iff)
  ultimately show ?thesis
    using get_fresh [OF tb wf None, of w] fresh by simp
next
  case (Some r)
  then have "p \<in> fst ` set (cache s)" by (metis map_of_eq_None_iff option.distinct(1))
  with get_stored [OF tb wf Some, of w] Some show ?thesis by auto
qed

lemma gets_effect:
  assumes "tensorboard cfg"
  shows "wf_state s0 \<Longrightarrow> gets cfg calls s0 = (rs, s) \<Longrightarrow>
     wf_state s \<and>
     (\<forall>p r. map_of (cache s0) p = Some r \<longrightarrow> map_of (cache s) p = Some r) \<and>
     fst ` set (cache s) = fst ` set (cache s0) \<union> snd ` set calls \<and>
     list_all2 (\<lambda>c r. \<exists>ref. r = Inr ref \<and> map_of (cache s) (snd c) = Some ref) calls rs"
proof (induction calls arbitrary: s0 rs s)
  case Nil
  then show ?case by simp
next
  case (Cons c cs)
  from get_effect [OF assms Cons.prems(1), of "fst c" "snd c"]
  obtain r s1 where g: "get cfg (fst c) (snd c) s0 = (Inr r, s1)" and wf1: "wf_state s1"
    and r: "map_of (cache s1) (snd c) = Some r"
    and keep1: "\<forall>p' r'. map_of (cache s0) p' = Some r' \<longrightarrow> map_of (cache s1) p' = Some r'"
    and keys1: "fst ` set (cache s1) = insert (snd c) (fst ` set (cache s0))"
    by blast
  obtain rs' s' where rest: "gets cfg cs s1 = (rs', s')" by (cases "gets cfg cs s1")
  with g Cons.prems(2) have rs: "rs = Inr r # rs'" and s: "s = s'" by simp_all
  from Cons.IH [OF wf1 rest] have wf: "wf_state s'"
    and keep: "\<forall>p r. map_of (cache s1) p = Some r \<longrightarrow> map_of (cache s') p = Some r"
    and keys: "fst ` set (cache s') = fst ` set (cache s1) \<union> snd ` set cs"
    and res: "list_all2 (\<lambda>c r. \<exists>ref. r = Inr ref \<and> map_of (cache s') (snd c) = Some ref) cs rs'"
    by simp_all
  from keep r have "map_of (cache s') (snd c) = Some r" by simp
  with wf keep keep1 keys keys1 res rs s show ?case by auto
qed

lemma wf_state_count: "wf_state s \<Longrightarrow> length (heap s) = card (fst ` set (cache s))"
proof -
  assume wf: "wf_state s"
  then have "length (heap s) = length (map snd (cache s))" by (simp add: wf_state_def)
  also have "\<dots> = length (map fst (cache s))" by simp
  also have "\<dots> = card (set (map fst (cache s)))"
    using wf distinct_card [of "map fst (cache s)"] by (simp add: wf_state_def)
  also have "\<dots> = card (fst ` set (cache s))" by simp
  finally show ?thesis .
qed

lemma wf_state_inj:
  assumes "wf_state s" and "map_of (cache s) p = Some r" and "map_of (cache s) p' = Some r"
  shows "p = p'"
proof -
  from assms(1) have "distinct (map snd (cache s))" by (simp add: wf_state_def)
  then have "inj_on snd (set (cache s))" by (simp add: distinct_map)
  moreover from assms(2,3) have "(p, r) \<in> set (cache s)" "(p', r) \<in> set (cache s)"
    by (auto dest: map_of_SomeD)
  ultimately show ?thesis
    using inj_onD [of snd "set (cache s)" "(p, r)" "(p', r)"] by simp
qed

text \<open>
  Claim C1. The calls of \<^verbatim>\<open>get\<close> take effect one at a time (the lock), so every
  execution is a sequence of calls, each with the world it finds. After any such
  sequence from the empty cache, with the parser library present: as many
  accumulators have been constructed as there are distinct paths among the calls;
  every call returned a reference to a constructed accumulator; two calls returned
  the same reference exactly when their paths were equal; and the next call constructs
  an accumulator only for a path the cache does not hold, while for a path it holds it
  reloads the stored accumulator in place and returns its reference. (Without the
  library no accumulator is ever constructed; see claim C8.)
\<close>

theorem cache_one_handle_per_path:
  assumes "tensorboard cfg" and "gets cfg calls init_state = (rs, s)"
  shows "length (heap s) = card (snd ` set calls) \<and>
     length rs = length calls \<and>
     (\<forall>i < length calls. \<forall>j < length calls.
        (\<exists>ref. rs ! i = Inr ref \<and> ref < length (heap s)) \<and>
        (rs ! i = rs ! j \<longleftrightarrow> snd (calls ! i) = snd (calls ! j))) \<and>
     (\<forall>w p.
        (map_of (cache s) p = None \<longrightarrow>
           get cfg w p s =
             (Inr (length (heap s)),
              s\<lparr>heap := heap s @ [Reload (files w) (new_EventAccumulator p)],
                cache := cache s @ [(p, length (heap s))]\<rparr>)) \<and>
        (\<forall>ref. map_of (cache s) p = Some ref \<longrightarrow>
           ref < length (heap s) \<and>
           get cfg w p s = (Inr ref, s\<lparr>heap := (heap s)[ref := Reload (files w) (heap s ! ref)]\<rparr>)))"
proof -
  from gets_effect [OF assms(1) wf_state_init assms(2)]
  have wf: "wf_state s"
    and keys: "fst ` set (cache s) = snd ` set calls"
    and res: "list_all2 (\<lambda>c r. \<exists>ref. r = Inr ref \<and> map_of (cache s) (snd c) = Some ref) calls rs"
    by (simp_all add: init_state_def)
  from res have len: "length rs = length calls" by (simp add: list_all2_lengthD)
  have at: "\<exists>ref. rs ! i = Inr ref \<and> map_of (cache s) (snd (calls ! i)) = Some ref"
    if "i < length calls" for i
    using res that by (simp add: list_all2_conv_all_nth)
  have pair: "(\<exists>ref. rs ! i = Inr ref \<and> ref < length (heap s)) \<and>
        (rs ! i = rs ! j \<longleftrightarrow> snd (calls ! i) = snd (calls ! j))"
    if i: "i < length calls" and j: "j < length calls" for i j
  proof -
    from at [OF i] obtain a where a: "rs ! i = Inr a" "map_of (cache s) (snd (calls ! i)) = Some a"
      by blast
    from at [OF j] obtain b where b: "rs ! j = Inr b" "map_of (cache s) (snd (calls ! j)) = Some b"
      by blast
    from wf_state_lookup [OF wf a(2)] have "a < length (heap s)" by simp
    moreover have "a = b \<longleftrightarrow> snd (calls ! i) = snd (calls ! j)"
      using a(2) b(2) wf_state_inj [OF wf, of "snd (calls ! i)" a "snd (calls ! j)"] by auto
    ultimately show ?thesis using a(1) b(1) by simp
  qed
  have step: "(map_of (cache s) p = None \<longrightarrow>
           get cfg w p s =
             (Inr (length (heap s)),
              s\<lparr>heap := heap s @ [Reload (files w) (new_EventAccumulator p)],
                cache := cache s @ [(p, length (heap s))]\<rparr>)) \<and>
        (\<forall>ref. map_of (cache s) p = Some ref \<longrightarrow>
           ref < length (heap s) \<and>
           get cfg w p s = (Inr ref, s\<lparr>heap := (heap s)[ref := Reload (files w) (heap s ! ref)]\<rparr>))"
    for w p
    using get_fresh(1) [OF assms(1) wf, of p w] get_stored(1) [OF assms(1) wf, of p _ w]
      wf_state_lookup [OF wf, of p]
    by blast
  from wf_state_count [OF wf] keys have "length (heap s) = card (snd ` set calls)" by simp
  with len pair step show ?thesis by blast
qed

lemma find_match:
  "\<exists>ref \<in> set runs. run_id ref = r \<and> behavior ref = b \<Longrightarrow>
     \<exists>ef. find (\<lambda>run. run_id run = r \<and> behavior run = b) runs = Some ef \<and>
       ef \<in> set runs \<and> run_id ef = r \<and> behavior ef = b"
proof -
  assume "\<exists>ref \<in> set runs. run_id ref = r \<and> behavior ref = b"
  then have "find (\<lambda>run. run_id run = r \<and> behavior run = b) runs \<noteq> None"
    unfolding find_None_iff by blast
  then obtain ef where ef: "find (\<lambda>run. run_id run = r \<and> behavior run = b) runs = Some ef" by auto
  then show ?thesis by (auto simp: find_Some_iff)
qed

text \<open>
  Claim C8. Without the parser library every call of \<^verbatim>\<open>get\<close> raises the
  \<^verbatim>\<open>RuntimeError\<close> of the missing dependency, whatever the path and the state, and
  leaves the state as it was; and a metrics request whose run and behavior match an
  entry of the discovery output is answered 500 with that message as the error field.
\<close>

theorem missing_dependency_500:
  assumes "\<not> tensorboard cfg"
  shows "get cfg w p s = (Inl (RuntimeError missing_dependency), s) \<and>
     (\<forall>r b runs.
        first_value q ''run'' = Some r \<and> first_value q ''behavior'' = Some b \<and>
        discover_runs (results_dir cfg) (tree w) = Inr runs \<and>
        (\<exists>ref \<in> set runs. run_id ref = r \<and> behavior ref = b) \<longrightarrow>
        handle_metrics to_int cfg w q s =
          (Inr \<lparr>status = 500, body = ErrorPayload missing_dependency\<rparr>, s))"
proof -
  have "handle_metrics to_int cfg w q s =
          (Inr \<lparr>status = 500, body = ErrorPayload missing_dependency\<rparr>, s)"
    if r: "first_value q ''run'' = Some r" and b: "first_value q ''behavior'' = Some b"
      and d: "discover_runs (results_dir cfg) (tree w) = Inr runs"
      and m: "\<exists>ref \<in> set runs. run_id ref = r \<and> behavior ref = b" for r b runs
  proof -
    from find_match [OF m] obtain ef where
      "find (\<lambda>run. run_id run = r \<and> behavior run = b) runs = Some ef" by blast
    with d have "find_event_file cfg w r b = Inr (Some ef)" by (simp add: find_event_file_def)
    with r b show ?thesis
      unfolding handle_metrics_unfold
      by (simp add: metrics_of_def get_missing_dependency [OF assms] write_json_def)
  qed
  with get_missing_dependency [OF assms] show ?thesis by blast
qed

lemma get_Inr_tensorboard: "get cfg w p s = (Inr r, s') \<Longrightarrow> tensorboard cfg"
  by (cases "tensorboard cfg") (simp_all add: get_def)

lemma get_reloaded:
  assumes "wf_state s" and "get cfg w p s = (Inr r, s')"
  shows "wf_state s' \<and> map_of (cache s') p = Some r \<and> r < length (heap s') \<and>
     acc_path (heap s' ! r) = p \<and> (\<exists>acc. acc_path acc = p \<and> heap s' ! r = Reload (files w) acc)"
proof -
  have tb: "tensorboard cfg" using assms(2) by (rule get_Inr_tensorboard)
  show ?thesis
  proof (cases "map_of (cache s) p")
    case None
    from get_fresh [OF tb assms(1) None, of w] assms(2)
    have r: "r = length (heap s)"
      and s': "s' = s\<lparr>heap := heap s @ [Reload (files w) (new_EventAccumulator p)],
         cache := cache s @ [(p, length (heap s))]\<rparr>"
      and wf: "wf_state s'" by simp_all
    have "acc_path (new_EventAccumulator p) = p" by (simp add: new_EventAccumulator_def)
    moreover have "heap s' ! r = Reload (files w) (new_EventAccumulator p)"
      by (simp add: r s')
    moreover have "map_of (cache s') p = Some r"
      using None by (simp add: r s' map_add_Some_iff)
    moreover have "r < length (heap s')" by (simp add: r s')
    ultimately show ?thesis using wf by auto
  next
    case (Some r0)
    from get_stored [OF tb assms(1) Some, of w] assms(2)
    have r: "r = r0"
      and s': "s' = s\<lparr>heap := (heap s)[r0 := Reload (files w) (heap s ! r0)]\<rparr>"
      and wf: "wf_state s'" by simp_all
    from wf_state_lookup [OF assms(1) Some]
    have lt: "r0 < length (heap s)" and pa: "acc_path (heap s ! r0) = p" by simp_all
    have "heap s' ! r = Reload (files w) (heap s ! r0)" using lt by (simp add: r s')
    moreover have "map_of (cache s') p = Some r" using Some by (simp add: r s')
    moreover have "r < length (heap s')" using lt by (simp add: r s')
    ultimately show ?thesis using wf pa by auto
  qed
qed

text \<open>
  Claim C9. For two consecutive successful calls of \<^verbatim>\<open>get\<close> on one path, from a state
  the process can be in: the second call returns the reference of the first and
  constructs nothing; every series the accumulator held after the first call is, after
  the second, the same sequence followed by further samples (so nothing read is ever
  discarded, and every step of the first result is in the second); and where the file
  at the path is the same for both calls, the accumulator is unchanged by the second.
  The parser is the one modelled from the specification.
\<close>

theorem reload_extends_series:
  assumes "wf_state s0"
    and "get cfg w p s0 = (Inr r1, s1)"
    and "get cfg w' p s1 = (Inr r2, s2)"
  shows "r2 = r1 \<and> r1 < length (heap s1) \<and> length (heap s2) = length (heap s1) \<and>
     cache s2 = cache s1 \<and>
     (\<forall>tag evs. Scalars (heap s1 ! r1) tag = Inr evs \<longrightarrow>
        (\<exists>more. Scalars (heap s2 ! r1) tag = Inr (evs @ more))) \<and>
     (files w' p = files w p \<longrightarrow> heap s2 ! r1 = heap s1 ! r1)"
proof -
  have tb: "tensorboard cfg" using assms(2) by (rule get_Inr_tensorboard)
  from get_reloaded [OF assms(1,2)] obtain acc where wf1: "wf_state s1"
    and c1: "map_of (cache s1) p = Some r1" and lt: "r1 < length (heap s1)"
    and acc: "acc_path acc = p" "heap s1 ! r1 = Reload (files w) acc" by blast
  from get_stored(1) [OF tb wf1 c1, of w'] assms(3)
  have r2: "r2 = r1" and s2: "s2 = s1\<lparr>heap := (heap s1)[r1 := Reload (files w') (heap s1 ! r1)]\<rparr>"
    by simp_all
  have h2: "heap s2 ! r1 = Reload (files w') (heap s1 ! r1)" using lt by (simp add: s2)
  have ext: "\<exists>more. Scalars (heap s2 ! r1) tag = Inr (evs @ more)"
    if "Scalars (heap s1 ! r1) tag = Inr evs" for tag evs
    unfolding h2 using that by (rule Scalars_Reload_extends)
  have same: "heap s2 ! r1 = heap s1 ! r1" if "files w' p = files w p"
    unfolding h2 acc(2) using that acc(1) by (intro Reload_unchanged) simp
  have "length (heap s2) = length (heap s1)" "cache s2 = cache s1" by (simp_all add: s2)
  with r2 lt ext same show ?thesis by blast
qed

lemma collect_error: "collect acc limit tags d = Inl e \<Longrightarrow> e = KeyError"
  by (induction tags arbitrary: d) (auto simp: Scalars_def split: sum.splits option.splits)

lemma metrics_of_cases:
  "metrics_of cfg w r b limit ef s = (res, s') \<Longrightarrow>
     (\<not> tensorboard cfg \<and> s' = s \<and>
        res = Inr \<lparr>status = 500, body = ErrorPayload missing_dependency\<rparr>) \<or>
     (\<exists>ref. get cfg w (event_path ef) s = (Inr ref, s') \<and>
        (res = Inl KeyError \<or>
         (\<exists>data. collect (heap s' ! ref) limit (scalar_tags (heap s' ! ref)) [] = Inr data \<and>
            res = Inr \<lparr>status = 200, body = MetricsPayload
              \<lparr>mp_run = r, mp_behavior = b, mp_event_path = event_path ef,
               mp_updated_at = updated_at ef, mp_tags = scalar_tags (heap s' ! ref),
               mp_data = data\<rparr>\<rparr>)))"
proof (cases "tensorboard cfg")
  case False
  assume "metrics_of cfg w r b limit ef s = (res, s')"
  with False show ?thesis
    by (auto simp: metrics_of_def get_missing_dependency write_json_def)
next
  case True
  assume m: "metrics_of cfg w r b limit ef s = (res, s')"
  obtain ref s1 where g: "get cfg w (event_path ef) s = (Inr ref, s1)"
    using True by (cases "map_of (cache s) (event_path ef)") (auto simp: get_def Let_def)
  show ?thesis
  proof (cases "collect (heap s1 ! ref) limit (scalar_tags (heap s1 ! ref)) []")
    case (Inl e)
    then have "e = KeyError" by (rule collect_error)
    with m g Inl show ?thesis by (simp add: metrics_of_def Let_def)
  next
    case (Inr data)
    with m g show ?thesis by (auto simp: metrics_of_def Let_def write_json_def)
  qed
qed

text \<open>
  Claim C10. A metrics request answered with a status other than 200 leaves the whole
  state, and so the cache, exactly as it was; such a status is 400, 404 or 500, and 500
  is only given where the parser library is missing.
\<close>

theorem error_responses_keep_cache:
  assumes "handle_metrics to_int cfg w q s = (Inr resp, s')"
    and "status resp \<noteq> 200"
  shows "s' = s \<and> cache s' = cache s \<and> status resp \<in> {400, 404, 500} \<and>
     (status resp = 500 \<longrightarrow> \<not> tensorboard cfg)"
proof -
  have "s' = s \<and> status resp \<in> {400, 404, 500} \<and> (status resp = 500 \<longrightarrow> \<not> tensorboard cfg)"
  proof (cases "first_value q ''run''")
    case None
    with assms show ?thesis unfolding handle_metrics_unfold by auto
  next
    case r: (Some r)
    show ?thesis
    proof (cases "first_value q ''behavior''")
      case None
      with r assms show ?thesis unfolding handle_metrics_unfold by auto
    next
      case b: (Some b)
      show ?thesis
      proof (cases "find_event_file cfg w r b")
        case (Inl e)
        with r b assms show ?thesis unfolding handle_metrics_unfold by simp
      next
        case (Inr found)
        show ?thesis
        proof (cases found)
          case None
          with Inr r b assms show ?thesis unfolding handle_metrics_unfold by auto
        next
          case (Some ef)
          with Inr r b assms(1)
          have "metrics_of cfg w r b (effective_limit to_int (first_value q ''limit'')) ef s =
              (Inr resp, s')"
            unfolding handle_metrics_unfold by simp
          from metrics_of_cases [OF this] assms(2) show ?thesis by auto
        qed
      qed
    qed
  qed
  then show ?thesis by simp
qed

text \<open>
  A metrics request changes the state by at most one successful call of \<^verbatim>\<open>get\<close>, so
  the states the process can be in are closed under requests.
\<close>

lemma handle_metrics_state:
  assumes "handle_metrics to_int cfg w q s = (res, s')"
  shows "s' = s \<or> (\<exists>p ref. get cfg w p s = (Inr ref, s'))"
proof (cases "first_value q ''run''")
  case None
  with assms show ?thesis unfolding handle_metrics_unfold by simp
next
  case r: (Some r)
  show ?thesis
  proof (cases "first_value q ''behavior''")
    case None
    with r assms show ?thesis unfolding handle_metrics_unfold by simp
  next
    case b: (Some b)
    show ?thesis
    proof (cases "find_event_file cfg w r b")
      case (Inl e)
      with r b assms show ?thesis unfolding handle_metrics_unfold by simp
    next
      case (Inr found)
      show ?thesis
      proof (cases found)
        case None
        with Inr r b assms show ?thesis unfolding handle_metrics_unfold by simp
      next
        case (Some ef)
        with Inr r b assms
        have "metrics_of cfg w r b (effective_limit to_int (first_value q ''limit'')) ef s =
            (res, s')"
          unfolding handle_metrics_unfold by simp
        from metrics_of_cases [OF this] show ?thesis by blast
      qed
    qed
  qed
qed

lemma handle_metrics_wf_state:
  assumes "wf_state s" and "handle_metrics to_int cfg w q s = (res, s')"
  shows "wf_state s'"
  using handle_metrics_state [OF assms(2)] assms(1) get_reloaded [OF assms(1)] by blast

subsection \<open>The samples of a metrics response\<close>

lemma slice_from_tail: "1 \<le> L \<Longrightarrow> slice_from (- L) xs = drop (length xs - nat L) xs"
proof -
  assume "1 \<le> L"
  then have "nat (max (int (length xs) - L) 0) = length xs - nat L" by auto
  with \<open>1 \<le> L\<close> show ?thesis by (simp add: slice_from_def Let_def)
qed

lemma scalar_tags_Scalars:
  "t \<in> set (scalar_tags acc) \<Longrightarrow> \<exists>evs. Scalars acc t = Inr evs"
proof -
  assume "t \<in> set (scalar_tags acc)"
  then have "t \<in> fst ` set (scalars acc)" by (simp add: scalar_tags_def)
  then have "map_of (scalars acc) t \<noteq> None" by (simp add: map_of_eq_None_iff)
  then show ?thesis by (auto simp: Scalars_def)
qed

lemma collect_data:
  "(\<forall>t \<in> set tags. \<exists>evs. Scalars acc t = Inr evs) \<Longrightarrow>
   \<exists>data. collect acc limit tags d0 = Inr data \<and>
     fst ` set data = set tags \<union> fst ` set d0 \<and>
     (\<forall>t evs. t \<in> set tags \<longrightarrow> Scalars acc t = Inr evs \<longrightarrow>
        map_of data t = Some (map sample_json (slice_from (- limit) evs))) \<and>
     (\<forall>t. t \<notin> set tags \<longrightarrow> map_of data t = map_of d0 t)"
proof (induction tags arbitrary: d0)
  case Nil
  then show ?case by simp
next
  case (Cons tag tags)
  from Cons.prems obtain evs0 where evs0: "Scalars acc tag = Inr evs0" by auto
  let ?d1 = "AList.update tag (map sample_json (slice_from (- limit) evs0)) d0"
  from Cons.prems have "\<forall>t \<in> set tags. \<exists>evs. Scalars acc t = Inr evs" by simp
  from Cons.IH [OF this, of ?d1] obtain data where c: "collect acc limit tags ?d1 = Inr data"
    and k: "fst ` set data = set tags \<union> fst ` set ?d1"
    and v: "\<forall>t evs. t \<in> set tags \<longrightarrow> Scalars acc t = Inr evs \<longrightarrow>
        map_of data t = Some (map sample_json (slice_from (- limit) evs))"
    and o: "\<forall>t. t \<notin> set tags \<longrightarrow> map_of data t = map_of ?d1 t"
    by blast
  have c': "collect acc limit (tag # tags) d0 = Inr data" using evs0 c by simp
  have k': "fst ` set data = set (tag # tags) \<union> fst ` set d0"
    using k by (auto simp: dom_update)
  have v': "map_of data t = Some (map sample_json (slice_from (- limit) evs))"
    if "t \<in> set (tag # tags)" "Scalars acc t = Inr evs" for t evs
  proof (cases "t \<in> set tags")
    case True
    with v that show ?thesis by simp
  next
    case False
    with that have "t = tag" "evs = evs0" using evs0 by auto
    with o False show ?thesis by (simp add: update_conv')
  qed
  have o': "map_of data t = map_of d0 t" if "t \<notin> set (tag # tags)" for t
    using o that by (simp add: update_conv')
  from c' k' v' o' show ?case by blast
qed

text \<open>
  Claim C3. A metrics request answered 200, from a state the process can be in, was
  resolved to an event file whose accumulator \<^verbatim>\<open>get\<close> returned; the tags of the payload
  are the scalar tags of that accumulator, the keys of the data are those tags, and for
  every tag the series of the accumulator splits into a front part and a tail whose
  length is the minimum of the effective limit and the length of the series, the data
  of the tag being that tail, in its order, each sample turned into its step, its
  value as a float and its wall time.
\<close>

theorem metrics_tail_slice:
  assumes "wf_state s"
    and "handle_metrics to_int cfg w q s = (Inr resp, s')"
    and "status resp = 200"
  shows "\<exists>r b ef ref mp.
     first_value q ''run'' = Some r \<and> first_value q ''behavior'' = Some b \<and>
     find_event_file cfg w r b = Inr (Some ef) \<and>
     get cfg w (event_path ef) s = (Inr ref, s') \<and>
     ref < length (heap s') \<and> acc_path (heap s' ! ref) = event_path ef \<and>
     body resp = MetricsPayload mp \<and>
     mp_tags mp = scalar_tags (heap s' ! ref) \<and>
     fst ` set (mp_data mp) = set (mp_tags mp) \<and>
     (\<forall>tag \<in> set (mp_tags mp). \<exists>pre tail.
        Scalars (heap s' ! ref) tag = Inr (pre @ tail) \<and>
        length tail =
          min (nat (effective_limit to_int (first_value q ''limit''))) (length (pre @ tail)) \<and>
        map_of (mp_data mp) tag =
          Some (map (\<lambda>ev. \<lparr>js_step = ev_step ev, js_value = py_float (ev_value ev),
                           js_wall_time = ev_wall_time ev\<rparr>) tail))"
proof -
  let ?L = "effective_limit to_int (first_value q ''limit'')"
  have L: "1 \<le> ?L" by (simp add: effective_limit_def split: option.split)
  from assms(2,3) obtain r where r: "first_value q ''run'' = Some r"
    unfolding handle_metrics_unfold by (cases "first_value q ''run''") auto
  from assms(2,3) r obtain b where b: "first_value q ''behavior'' = Some b"
    unfolding handle_metrics_unfold by (cases "first_value q ''behavior''") auto
  from assms(2,3) r b obtain ef where ef: "find_event_file cfg w r b = Inr (Some ef)"
    unfolding handle_metrics_unfold
    by (cases "find_event_file cfg w r b") (auto split: option.splits)
  from assms(2) r b ef have m: "metrics_of cfg w r b ?L ef s = (Inr resp, s')"
    unfolding handle_metrics_unfold by simp
  from metrics_of_cases [OF m] assms(3) obtain ref data
    where g: "get cfg w (event_path ef) s = (Inr ref, s')"
      and c: "collect (heap s' ! ref) ?L (scalar_tags (heap s' ! ref)) [] = Inr data"
      and resp: "resp = \<lparr>status = 200, body = MetricsPayload
              \<lparr>mp_run = r, mp_behavior = b, mp_event_path = event_path ef,
               mp_updated_at = updated_at ef, mp_tags = scalar_tags (heap s' ! ref),
               mp_data = data\<rparr>\<rparr>"
    by auto
  let ?acc = "heap s' ! ref"
  let ?mp = "\<lparr>mp_run = r, mp_behavior = b, mp_event_path = event_path ef,
               mp_updated_at = updated_at ef, mp_tags = scalar_tags ?acc, mp_data = data\<rparr>"
  from get_reloaded [OF assms(1) g]
  have lt: "ref < length (heap s')" and pa: "acc_path ?acc = event_path ef" by simp_all
  have "\<forall>t \<in> set (scalar_tags ?acc). \<exists>evs. Scalars ?acc t = Inr evs"
    using scalar_tags_Scalars by blast
  from collect_data [OF this, of ?L "[]"] c
  have k: "fst ` set data = set (scalar_tags ?acc)"
    and v: "\<And>t evs. t \<in> set (scalar_tags ?acc) \<Longrightarrow> Scalars ?acc t = Inr evs \<Longrightarrow>
        map_of data t = Some (map sample_json (slice_from (- ?L) evs))"
    by auto
  have per: "\<exists>pre tail. Scalars ?acc tag = Inr (pre @ tail) \<and>
        length tail = min (nat ?L) (length (pre @ tail)) \<and>
        map_of data tag =
          Some (map (\<lambda>ev. \<lparr>js_step = ev_step ev, js_value = py_float (ev_value ev),
                           js_wall_time = ev_wall_time ev\<rparr>) tail)"
    if t: "tag \<in> set (scalar_tags ?acc)" for tag
  proof -
    from scalar_tags_Scalars [OF t] obtain evs where evs: "Scalars ?acc tag = Inr evs" by blast
    let ?pre = "take (length evs - nat ?L) evs"
    let ?tail = "drop (length evs - nat ?L) evs"
    have "map_of data tag = Some (map sample_json ?tail)"
      using v [OF t evs] slice_from_tail [OF L, of evs] by simp
    then have "map_of data tag =
          Some (map (\<lambda>ev. \<lparr>js_step = ev_step ev, js_value = py_float (ev_value ev),
                           js_wall_time = ev_wall_time ev\<rparr>) ?tail)"
      by (simp add: sample_json_def [abs_def])
    moreover have "Scalars ?acc tag = Inr (?pre @ ?tail)" using evs by simp
    moreover have "length ?tail = min (nat ?L) (length (?pre @ ?tail))" by auto
    ultimately show ?thesis by blast
  qed
  have "body resp = MetricsPayload ?mp" by (simp add: resp)
  moreover have "mp_tags ?mp = scalar_tags ?acc" by simp
  moreover have "fst ` set (mp_data ?mp) = set (mp_tags ?mp)" using k by simp
  moreover have "\<forall>tag \<in> set (mp_tags ?mp). \<exists>pre tail.
        Scalars ?acc tag = Inr (pre @ tail) \<and>
        length tail = min (nat ?L) (length (pre @ tail)) \<and>
        map_of (mp_data ?mp) tag =
          Some (map (\<lambda>ev. \<lparr>js_step = ev_step ev, js_value = py_float (ev_value ev),
                           js_wall_time = ev_wall_time ev\<rparr>) tail)"
    using per by simp
  ultimately show ?thesis using r b ef g lt pa by blast
qed

subsection \<open>The properties on the example inputs\<close>

lemma Reload0: "Reload (files w0) (new_EventAccumulator path0) = acc0"
  by (simp add: Reload_def new_EventAccumulator_def w0_def log0_def acc0_def add_scalar_def)

lemma Reload0_again: "Reload (files w0) acc0 = acc0"
  by (simp add: Reload_def w0_def log0_def acc0_def)

lemma Reload1: "Reload (files w1) acc0 = acc1"
  by (simp add: Reload_def w1_def log1_def log0_def acc0_def acc1_def add_scalar_def)

lemma get0: "get cfg0 w0 path0 init_state = (Inr 0, st1)"
  by (simp add: get_def cfg0_def init_state_def st1_def Reload0)

lemma get0_again: "get cfg0 w0 path0 st1 = (Inr 0, st1)"
  by (simp add: get_def cfg0_def st1_def Reload0_again)

lemma get1: "get cfg0 w1 path0 st1 = (Inr 0, st2)"
  by (simp add: get_def cfg0_def st1_def st2_def Reload1)

lemma path0_path1: "path0 \<noteq> path1"
  by (simp add: path0_def path1_def)

lemma Reload_path1: "Reload (files w0) (new_EventAccumulator path1) = \<lparr>acc_path = path1, consumed = 0, scalars = []\<rparr>"
  using path0_path1 by (simp add: Reload_def new_EventAccumulator_def w0_def)

lemma gets0:
  "gets cfg0 [(w0, path0), (w0, path1), (w1, path0)] init_state =
     ([Inr 0, Inr 1, Inr 0],
      \<lparr>cache = [(path0, 0), (path1, 1)],
       heap = [acc1, \<lparr>acc_path = path1, consumed = 0, scalars = []\<rparr>]\<rparr>)"
proof -
  have a: "get cfg0 w0 path1 st1 =
      (Inr 1, \<lparr>cache = [(path0, 0), (path1, 1)],
               heap = [acc0, \<lparr>acc_path = path1, consumed = 0, scalars = []\<rparr>]\<rparr>)"
    using path0_path1 by (simp add: get_def cfg0_def st1_def Reload_path1 Let_def)
  have b: "get cfg0 w1 path0 \<lparr>cache = [(path0, 0), (path1, 1)],
               heap = [acc0, \<lparr>acc_path = path1, consumed = 0, scalars = []\<rparr>]\<rparr> =
      (Inr 0, \<lparr>cache = [(path0, 0), (path1, 1)],
       heap = [acc1, \<lparr>acc_path = path1, consumed = 0, scalars = []\<rparr>]\<rparr>)"
    by (simp add: get_def cfg0_def Reload1)
  show ?thesis by (simp only: gets.simps fst_conv snd_conv get0 a b prod.case)
qed

lemma find0: "find_event_file cfg0 w0 ''run1'' ''AgentA'' = Inr (Some
    \<lparr>run_id = ''run1'', behavior = ''AgentA'', event_path = path0, updated_at = 20\<rparr>)"
  by (simp add: find_event_file_def discover_runs0 runs0_def)

lemma first_value_q0:
  "first_value q0 ''run'' = Some ''run1''"
  "first_value q0 ''behavior'' = Some ''AgentA''"
  "first_value q0 ''limit'' = Some ''2''"
  by (simp_all add: first_value_def q0_def)

lemma metrics0:
  "handle_metrics int0 cfg0 w0 q0 init_state =
     (Inr \<lparr>status = 200, body = MetricsPayload
        \<lparr>mp_run = ''run1'', mp_behavior = ''AgentA'', mp_event_path = path0,
         mp_updated_at = 20, mp_tags = [''reward'', ''loss''],
         mp_data =
           [(''reward'',
             [\<lparr>js_step = 2, js_value = 1.5, js_wall_time = 101\<rparr>,
              \<lparr>js_step = 3, js_value = 2, js_wall_time = 102\<rparr>]),
            (''loss'', [\<lparr>js_step = 1, js_value = 3, js_wall_time = 100\<rparr>])]\<rparr>\<rparr>,
      st1)"
proof -
  have l: "effective_limit int0 (Some ''2'') = 2" by (simp add: effective_limit_def int0_def)
  have h: "heap st1 ! 0 = acc0" by (simp add: st1_def)
  have t: "scalar_tags acc0 = [''reward'', ''loss'']" by (simp add: scalar_tags_def acc0_def)
  have c: "collect acc0 2 [''reward'', ''loss''] [] = Inr
           [(''reward'',
             [\<lparr>js_step = 2, js_value = 1.5, js_wall_time = 101\<rparr>,
              \<lparr>js_step = 3, js_value = 2, js_wall_time = 102\<rparr>]),
            (''loss'', [\<lparr>js_step = 1, js_value = 3, js_wall_time = 100\<rparr>])]"
    by (simp add: Scalars_def acc0_def slice_from_def sample_json_def)
  show ?thesis
    unfolding handle_metrics_unfold
    by (simp add: first_value_q0 find0 l metrics_of_def get0 h t c write_json_def
        del: collect.simps)
qed

theorem cache_one_handle_per_path_witness:
  "tensorboard cfg0 \<and>
   gets cfg0 [(w0, path0), (w0, path1), (w1, path0)] init_state =
     ([Inr 0, Inr 1, Inr 0],
      \<lparr>cache = [(path0, 0), (path1, 1)],
       heap = [acc1, \<lparr>acc_path = path1, consumed = 0, scalars = []\<rparr>]\<rparr>) \<and>
   length (heap \<lparr>cache = [(path0, 0), (path1, 1)],
       heap = [acc1, \<lparr>acc_path = path1, consumed = 0, scalars = []\<rparr>]\<rparr>) =
     card (snd ` set [(w0, path0), (w0, path1), (w1, path0)])"
proof -
  have tb: "tensorboard cfg0" by (simp add: cfg0_def)
  from cache_one_handle_per_path [OF tb gets0] tb gets0 show ?thesis by blast
qed


theorem metrics_tail_slice_witness:
  "wf_state init_state \<and>
   handle_metrics int0 cfg0 w0 q0 init_state =
     (Inr \<lparr>status = 200, body = MetricsPayload
        \<lparr>mp_run = ''run1'', mp_behavior = ''AgentA'', mp_event_path = path0,
         mp_updated_at = 20, mp_tags = [''reward'', ''loss''],
         mp_data =
           [(''reward'',
             [\<lparr>js_step = 2, js_value = 1.5, js_wall_time = 101\<rparr>,
              \<lparr>js_step = 3, js_value = 2, js_wall_time = 102\<rparr>]),
            (''loss'', [\<lparr>js_step = 1, js_value = 3, js_wall_time = 100\<rparr>])]\<rparr>\<rparr>,
      st1) \<and>
   effective_limit int0 (first_value q0 ''limit'') = 2 \<and>
   Scalars (heap st1 ! 0) ''reward'' = Inr
     [\<lparr>ev_wall_time = 100, ev_step = 1, ev_value = FloatValue 0.5\<rparr>,
      \<lparr>ev_wall_time = 101, ev_step = 2, ev_value = FloatValue 1.5\<rparr>,
      \<lparr>ev_wall_time = 102, ev_step = 3, ev_value = IntValue 2\<rparr>]"
proof -
  have st: "status \<lparr>status = 200, body = MetricsPayload
        \<lparr>mp_run = ''run1'', mp_behavior = ''AgentA'', mp_event_path = path0,
         mp_updated_at = 20, mp_tags = [''reward'', ''loss''],
         mp_data =
           [(''reward'',
             [\<lparr>js_step = 2, js_value = 1.5, js_wall_time = 101\<rparr>,
              \<lparr>js_step = 3, js_value = 2, js_wall_time = 102\<rparr>]),
            (''loss'', [\<lparr>js_step = 1, js_value = 3, js_wall_time = 100\<rparr>])]\<rparr>\<rparr> = 200"
    by simp
  from metrics_tail_slice [OF wf_state_init metrics0 st]
  obtain ref where "get cfg0 w0 path0 init_state = (Inr ref, st1)" "ref < length (heap st1)"
    using find0 first_value_q0 by auto
  moreover have "effective_limit int0 (first_value q0 ''limit'') = 2"
    by (simp add: first_value_q0 effective_limit_def int0_def)
  moreover have "Scalars (heap st1 ! 0) ''reward'' = Inr
     [\<lparr>ev_wall_time = 100, ev_step = 1, ev_value = FloatValue 0.5\<rparr>,
      \<lparr>ev_wall_time = 101, ev_step = 2, ev_value = FloatValue 1.5\<rparr>,
      \<lparr>ev_wall_time = 102, ev_step = 3, ev_value = IntValue 2\<rparr>]"
    by (simp add: st1_def acc0_def Scalars_def)
  ultimately show ?thesis using wf_state_init metrics0 by simp
qed

theorem missing_dependency_500_witness:
  "\<not> tensorboard cfg1 \<and>
   get cfg1 w0 path0 st1 =
     (Inl (RuntimeError
        ''tensorboard is not installed. Install it with `pip install tensorboard`.''), st1) \<and>
   first_value q0 ''run'' = Some ''run1'' \<and> first_value q0 ''behavior'' = Some ''AgentA'' \<and>
   discover_runs (results_dir cfg1) (tree w0) = Inr runs0 \<and>
   handle_metrics int0 cfg1 w0 q0 st1 =
     (Inr \<lparr>status = 500, body = ErrorPayload
        ''tensorboard is not installed. Install it with `pip install tensorboard`.''\<rparr>, st1)"
proof -
  have tb: "\<not> tensorboard cfg1" by (simp add: cfg1_def)
  have m: "\<exists>ref \<in> set runs0. run_id ref = ''run1'' \<and> behavior ref = ''AgentA''"
    by (simp add: runs0_def)
  from missing_dependency_500 [OF tb, of w0 path0 st1 q0 int0]
    first_value_q0 discover_runs0'(1) m tb
  show ?thesis unfolding missing_dependency_def by blast
qed

theorem reload_extends_series_witness:
  "wf_state init_state \<and>
   get cfg0 w0 path0 init_state = (Inr 0, st1) \<and>
   get cfg0 w1 path0 st1 = (Inr 0, st2) \<and>
   get cfg0 w0 path0 st1 = (Inr 0, st1) \<and>
   files w1 path0 = files w0 path0 @
     [(''reward'', \<lparr>ev_wall_time = 103, ev_step = 4, ev_value = FloatValue 2.5\<rparr>),
      (''loss'', \<lparr>ev_wall_time = 103, ev_step = 2, ev_value = IntValue 1\<rparr>)] \<and>
   Scalars (heap st1 ! 0) ''loss'' =
     Inr [\<lparr>ev_wall_time = 100, ev_step = 1, ev_value = IntValue 3\<rparr>] \<and>
   Scalars (heap st2 ! 0) ''loss'' =
     Inr [\<lparr>ev_wall_time = 100, ev_step = 1, ev_value = IntValue 3\<rparr>,
          \<lparr>ev_wall_time = 103, ev_step = 2, ev_value = IntValue 1\<rparr>]"
proof -
  from reload_extends_series [OF wf_state_init get0 get1]
  have "length (heap st2) = length (heap st1)" by simp
  moreover have "files w1 path0 = files w0 path0 @
     [(''reward'', \<lparr>ev_wall_time = 103, ev_step = 4, ev_value = FloatValue 2.5\<rparr>),
      (''loss'', \<lparr>ev_wall_time = 103, ev_step = 2, ev_value = IntValue 1\<rparr>)]"
    by (simp add: w0_def w1_def log1_def)
  moreover have "Scalars (heap st1 ! 0) ''loss'' =
     Inr [\<lparr>ev_wall_time = 100, ev_step = 1, ev_value = IntValue 3\<rparr>]"
    by (simp add: st1_def acc0_def Scalars_def)
  moreover have "Scalars (heap st2 ! 0) ''loss'' =
     Inr [\<lparr>ev_wall_time = 100, ev_step = 1, ev_value = IntValue 3\<rparr>,
          \<lparr>ev_wall_time = 103, ev_step = 2, ev_value = IntValue 1\<rparr>]"
    by (simp add: st2_def acc1_def Scalars_def)
  ultimately show ?thesis using wf_state_init get0 get1 get0_again by simp
qed

theorem error_responses_keep_cache_witness:
  "handle_metrics int0 cfg1 w0 q0 st1 =
     (Inr \<lparr>status = 500, body = ErrorPayload missing_dependency\<rparr>, st1) \<and>
   handle_metrics int0 cfg0 w0 [(''run'', ''missing''), (''behavior'', ''x'')] st1 =
     (Inr \<lparr>status = 404, body = ErrorPayload (not_found_message ''missing'' ''x'')\<rparr>, st1) \<and>
   handle_metrics int0 cfg0 w0 [(''behavior'', ''AgentA'')] st1 =
     (Inr \<lparr>status = 400, body = ErrorPayload ''run and behavior are required''\<rparr>, st1) \<and>
   cache st1 = [(path0, 0)]"
proof -
  have a: "handle_metrics int0 cfg1 w0 q0 st1 =
     (Inr \<lparr>status = 500, body = ErrorPayload missing_dependency\<rparr>, st1)"
  proof -
    have "find_event_file cfg1 w0 ''run1'' ''AgentA'' = Inr (Some
      \<lparr>run_id = ''run1'', behavior = ''AgentA'', event_path = path0, updated_at = 20\<rparr>)"
      by (simp add: find_event_file_def discover_runs0'(1) runs0_def)
    then show ?thesis
      unfolding handle_metrics_unfold
      by (simp add: first_value_q0 metrics_of_def get_def cfg1_def write_json_def)
  qed
  have b: "handle_metrics int0 cfg0 w0 [(''run'', ''missing''), (''behavior'', ''x'')] st1 =
     (Inr \<lparr>status = 404, body = ErrorPayload (not_found_message ''missing'' ''x'')\<rparr>, st1)"
    unfolding handle_metrics_unfold
    by (simp add: first_value_def find_event_file_def discover_runs0 runs0_def)
  have c: "handle_metrics int0 cfg0 w0 [(''behavior'', ''AgentA'')] st1 =
     (Inr \<lparr>status = 400, body = ErrorPayload ''run and behavior are required''\<rparr>, st1)"
    unfolding handle_metrics_unfold by (simp add: first_value_def)
  from error_responses_keep_cache [OF a] error_responses_keep_cache [OF b]
    error_responses_keep_cache [OF c]
  have "cache st1 = cache st1" by simp
  moreover have "cache st1 = [(path0, 0)]" by (simp add: st1_def)
  ultimately show ?thesis using a b c by simp
qed

subsection \<open>The scenarios of the specification\<close>

text \<open>A request for the last 50 of 300 samples is answered with the steps 251 to 300.\<close>

lemma fold_add_scalar_one_tag:
  "fold add_scalar (map (\<lambda>i. (t, f i)) xs) [(t, ys)] = [(t, ys @ map f xs)]"
  by (induction xs arbitrary: ys) (simp_all add: add_scalar_def)

lemma fold_add_scalar_first_tag:
  "xs \<noteq> [] \<Longrightarrow> fold add_scalar (map (\<lambda>i. (t, f i)) xs) [] = [(t, map f xs)]"
  by (cases xs) (simp_all add: fold_add_scalar_one_tag add_scalar_def)

lemma Reload300: "Reload (files w300) (new_EventAccumulator path0) = acc300"
proof -
  have "[1..300::int] \<noteq> []" by (simp del: upto_rec_numeral)
  from fold_add_scalar_first_tag [OF this, of "''reward''" reward_event]
  show ?thesis
    by (simp add: Reload_def new_EventAccumulator_def w300_def acc300_def del: upto_rec_numeral)
qed

lemma collect_one_tag:
  "collect \<lparr>acc_path = p, consumed = n, scalars = [(t, xs)]\<rparr> L [t] [] =
     Inr [(t, map sample_json (slice_from (- L) xs))]"
  by (simp add: Scalars_def)

lemma last_50_of_300: "slice_from (- 50) (map reward_event [1..300]) = map reward_event [251..300]"
proof -
  have "[1..300] = [1..250] @ [251..300::int]"
    using upto_split1 [of 1 251 300] by (simp del: upto_rec_numeral)
  then have "drop 250 (map reward_event [1..300]) = map reward_event [251..300]"
    by (simp add: drop_map del: upto_rec_numeral)
  then show ?thesis by (simp add: slice_from_def del: upto_rec_numeral)
qed

lemma scenario_last_50_of_300:
  "fst (handle_metrics int0 cfg0 w300
         [(''run'', ''run1''), (''behavior'', ''AgentA''), (''limit'', ''50'')] init_state) =
     Inr \<lparr>status = 200, body = MetricsPayload
        \<lparr>mp_run = ''run1'', mp_behavior = ''AgentA'', mp_event_path = path0,
         mp_updated_at = 20, mp_tags = [''reward''],
         mp_data =
           [(''reward'',
             map (\<lambda>i. \<lparr>js_step = i, js_value = of_int i, js_wall_time = of_int i\<rparr>)
               [251..300])]\<rparr>\<rparr>"
proof -
  have d: "discover_runs (results_dir cfg0) (tree w300) = Inr runs0"
    using discover_runs0 by (simp add: w0_def w300_def)
  have f: "find_event_file cfg0 w300 ''run1'' ''AgentA'' = Inr (Some
    \<lparr>run_id = ''run1'', behavior = ''AgentA'', event_path = path0, updated_at = 20\<rparr>)"
    by (simp add: find_event_file_def d runs0_def)
  have g: "get cfg0 w300 path0 init_state = (Inr 0, \<lparr>cache = [(path0, 0)], heap = [acc300]\<rparr>)"
    by (simp add: get_def cfg0_def init_state_def Reload300)
  have l: "effective_limit int0 (Some ''50'') = 50" by (simp add: effective_limit_def int0_def)
  have j: "map sample_json (map reward_event xs) =
      map (\<lambda>i. \<lparr>js_step = i, js_value = of_int i, js_wall_time = of_int i\<rparr>) xs" for xs
    by (simp add: sample_json_def reward_event_def)
  have c: "collect acc300 50 [''reward''] [] = Inr [(''reward'',
             map (\<lambda>i. \<lparr>js_step = i, js_value = of_int i, js_wall_time = of_int i\<rparr>) [251..300])]"
    unfolding acc300_def collect_one_tag last_50_of_300 j by (rule refl)
  have t: "scalar_tags acc300 = [''reward'']"
    by (simp add: scalar_tags_def acc300_def del: upto_rec_numeral)
  show ?thesis
    unfolding handle_metrics_unfold
    by (simp add: first_value_def f l metrics_of_def g t c write_json_def
        del: collect.simps upto_rec_numeral)
qed

text \<open>A results directory that is empty, or missing, gives an empty runs listing.\<close>

lemma scenario_no_runs:
  "tree w = None \<or> tree w = Some (Dir t []) \<Longrightarrow>
     handle_runs cfg w = Inr \<lparr>status = 200, body = RunsPayload []\<rparr>"
  by (auto simp: handle_runs_def discover_runs_def write_json_def)

end
